theory Spec2Isabelle
  imports Complex_Main
begin

section \<open>Numbers: 64-bit floats\<close>

text \<open>
  The pipeline computes in IEEE double precision. A float is a finite value, an infinity
  or NaN; a finite value is written as the rational it denotes, and pandas reads NaN as
  a missing cell. Every arithmetic operation is the exact operation followed by rounding
  to the nearest double, ties to even, with overflow to infinity and gradual underflow.
  The sign of zero is not modelled: both zeros are \<open>Fin 0\<close>.
\<close>

datatype f64 = Fin rat | PInf | NInf | NaN

function bit_length :: "int \<Rightarrow> int" where
  "bit_length n = (if n \<le> 0 then 0 else 1 + bit_length (n div 2))"
  by pat_completeness auto
termination
  by (relation "measure nat") auto

declare bit_length.simps [simp del]

definition pow2 :: "int \<Rightarrow> rat" where
  "pow2 e = (if 0 \<le> e then 2 ^ nat e else 1 / 2 ^ nat (- e))"

definition floor_log2 :: "rat \<Rightarrow> int" where
  \<comment> \<open>For \<open>x > 0\<close>: the exponent \<open>e\<close> with \<open>2 ^ e \<le> x < 2 ^ (e + 1)\<close>.\<close>
  "floor_log2 x =
     (let (p, q) = quotient_of x;
          d = bit_length p - bit_length q
      in if pow2 d \<le> x then d else d - 1)"

definition round_half_even :: "rat \<Rightarrow> int" where
  "round_half_even x =
     (let f = \<lfloor>x\<rfloor>; r = x - of_int f
      in if r < 1 / 2 then f else if 1 / 2 < r then f + 1 else if even f then f else f + 1)"

definition round_f64 :: "rat \<Rightarrow> f64" where
  \<comment> \<open>53 significant bits; the spacing below \<open>2 ^ -1022\<close> is that of the subnormals;
      a result of \<open>2 ^ 1024\<close> or more is an infinity.\<close>
  "round_f64 x =
     (if x = 0 then Fin 0
      else let a = \<bar>x\<bar>;
               e = max (floor_log2 a) (- 1022);
               q = pow2 (e - 52);
               m = round_half_even (a / q)
           in if 1024 \<le> e \<or> (e = 1023 \<and> 2 ^ 53 \<le> m)
              then (if 0 < x then PInf else NInf)
              else Fin (sgn x * of_int m * q))"


definition cast_int :: "int \<Rightarrow> f64" where
  \<comment> \<open>int64 to float64: exact up to \<open>2 ^ 53\<close>, rounded beyond.\<close>
  "cast_int i = round_f64 (of_int i)"

definition cast_bool :: "bool \<Rightarrow> f64" where
  "cast_bool b = Fin (if b then 1 else 0)"

definition wrap64 :: "int \<Rightarrow> int" where
  \<comment> \<open>int64 arithmetic wraps around.\<close>
  "wrap64 i = (i + 2 ^ 63) mod 2 ^ 64 - 2 ^ 63"

fun fneg :: "f64 \<Rightarrow> f64" where
  "fneg (Fin a) = Fin (- a)"
| "fneg PInf = NInf"
| "fneg NInf = PInf"
| "fneg NaN = NaN"

fun fadd :: "f64 \<Rightarrow> f64 \<Rightarrow> f64" where
  "fadd (Fin a) (Fin b) = round_f64 (a + b)"
| "fadd NaN _ = NaN"
| "fadd _ NaN = NaN"
| "fadd PInf NInf = NaN"
| "fadd NInf PInf = NaN"
| "fadd PInf _ = PInf"
| "fadd _ PInf = PInf"
| "fadd NInf _ = NInf"
| "fadd _ NInf = NInf"

definition fsub :: "f64 \<Rightarrow> f64 \<Rightarrow> f64" where
  "fsub a b = fadd a (fneg b)"

fun fsgn :: "f64 \<Rightarrow> int" where
  "fsgn (Fin a) = (if a = 0 then 0 else if 0 < a then 1 else - 1)"
| "fsgn PInf = 1"
| "fsgn NInf = - 1"
| "fsgn NaN = 0"

definition fmul :: "f64 \<Rightarrow> f64 \<Rightarrow> f64" where
  \<comment> \<open>With an infinity: NaN against NaN or zero, else the infinity of the product's sign.\<close>
  "fmul a b =
     (case (a, b) of
        (Fin x, Fin y) \<Rightarrow> round_f64 (x * y)
      | _ \<Rightarrow> if fsgn a = 0 \<or> fsgn b = 0 then NaN
             else if fsgn a = fsgn b then PInf else NInf)"

definition fdiv :: "f64 \<Rightarrow> f64 \<Rightarrow> f64" where
  "fdiv a b =
     (case (a, b) of
        (Fin x, Fin y) \<Rightarrow>
          if y = 0 then (if x = 0 then NaN else if 0 < x then PInf else NInf)
          else round_f64 (x / y)
      | (Fin x, PInf) \<Rightarrow> Fin 0
      | (Fin x, NInf) \<Rightarrow> Fin 0
      | (PInf, Fin y) \<Rightarrow> if 0 \<le> y then PInf else NInf
      | (NInf, Fin y) \<Rightarrow> if 0 \<le> y then NInf else PInf
      | _ \<Rightarrow> NaN)"

fun flt :: "f64 \<Rightarrow> f64 \<Rightarrow> bool" where
  "flt (Fin a) (Fin b) = (a < b)"
| "flt NaN _ = False"
| "flt _ NaN = False"
| "flt NInf NInf = False"
| "flt NInf _ = True"
| "flt _ NInf = False"
| "flt PInf _ = False"
| "flt _ PInf = True"

definition fle :: "f64 \<Rightarrow> f64 \<Rightarrow> bool" where
  "fle a b \<longleftrightarrow> flt a b \<or> (a = b \<and> a \<noteq> NaN)"

fun insort_f64 :: "f64 \<Rightarrow> f64 list \<Rightarrow> f64 list" where
  "insort_f64 x [] = [x]"
| "insort_f64 x (y # ys) = (if fle x y then x # y # ys else y # insort_f64 x ys)"

definition sort_f64 :: "f64 list \<Rightarrow> f64 list" where
  \<comment> \<open>Ascending order of values none of which is NaN.\<close>
  "sort_f64 xs = foldr insort_f64 xs []"

definition observed :: "f64 list \<Rightarrow> f64 list" where
  \<comment> \<open>The non-missing cells of a float column, in row order.\<close>
  "observed xs = filter (\<lambda>v. v \<noteq> NaN) xs"

definition seq_sum :: "f64 list \<Rightarrow> f64" where
  \<comment> \<open>Summation from left to right, which is what numpy computes for fewer than eight
      numbers. For longer arrays numpy groups the additions differently, and how depends
      on the length, on the memory layout and on whether the cells are converted on the
      way: the sums of the pipeline are therefore taken through parameters (\<open>np_sum\<close>,
      \<open>pd_sum\<close>), of which this is the instance used in the examples.\<close>
  "seq_sum xs = foldl fadd (Fin 0) xs"

section \<open>Data model\<close>

text \<open>
  A pandas DataFrame is modelled as a row index (a list of row labels) together with an
  ordered list of named columns. A column has one of the dtypes pandas infers when it
  reads a file: int64 (no cell missing), float64 (NaN is the missing cell), bool, or
  object, whose cells are text or missing.
\<close>

datatype column =
    IntCol "int list"
  | FloatCol "f64 list"
  | BoolCol "bool list"
  | ObjCol "string option list"

record table =
  tindex :: "nat list"
  tcolumns :: "(string \<times> column) list"

text \<open>Exceptions raised by Python, pandas, numpy or scikit-learn, as values.\<close>

datatype py_error = KeyError | ValueError | TypeError | ZeroDivisionError | DuplicateError

definition column_names :: "table \<Rightarrow> string list" where
  "column_names t = map fst (tcolumns t)"

definition get_column :: "table \<Rightarrow> string \<Rightarrow> column option" where
  "get_column t c = map_of (tcolumns t) c"

fun set_in :: "'k \<Rightarrow> 'v \<Rightarrow> ('k \<times> 'v) list \<Rightarrow> ('k \<times> 'v) list" where
  "set_in c v [] = [(c, v)]"
| "set_in c v ((k, w) # kvs) = (if k = c then (k, v) # kvs else (k, w) # set_in c v kvs)"

text \<open>Assignment to a key of an ordered dictionary (\<open>set_in\<close>) serves both for the
  columns of a table and for the \<^verbatim>\<open>summary\<close> dict of the estimator.\<close>

definition set_column :: "table \<Rightarrow> string \<Rightarrow> column \<Rightarrow> table" where
  \<comment> \<open>\<^verbatim>\<open>df[c] = v\<close>: replaces the column in place, or appends a new one.\<close>
  "set_column t c v = t\<lparr>tcolumns := set_in c v (tcolumns t)\<rparr>"

definition column_length :: "column \<Rightarrow> nat" where
  "column_length col =
     (case col of
        IntCol xs \<Rightarrow> length xs
      | FloatCol xs \<Rightarrow> length xs
      | BoolCol xs \<Rightarrow> length xs
      | ObjCol xs \<Rightarrow> length xs)"

definition is_number :: "column \<Rightarrow> bool" where
  \<comment> \<open>\<^verbatim>\<open>select_dtypes(include=np.number)\<close>: int64 and float64, not bool.\<close>
  "is_number col = (case col of IntCol _ \<Rightarrow> True | FloatCol _ \<Rightarrow> True | _ \<Rightarrow> False)"

definition is_numeric_dtype :: "column \<Rightarrow> bool" where
  \<comment> \<open>\<^verbatim>\<open>pd.api.types.is_numeric_dtype\<close>: int64, float64 and bool.\<close>
  "is_numeric_dtype col = (case col of ObjCol _ \<Rightarrow> False | _ \<Rightarrow> True)"

definition to_float :: "column \<Rightarrow> f64 list" where
  \<comment> \<open>The cells as float64, as numpy converts them when an operation calls for it.\<close>
  "to_float col =
     (case col of
        IntCol xs \<Rightarrow> map cast_int xs
      | FloatCol xs \<Rightarrow> xs
      | BoolCol xs \<Rightarrow> map cast_bool xs
      | ObjCol xs \<Rightarrow> [])"

definition wf_table :: "table \<Rightarrow> bool" where
  \<comment> \<open>What a DataFrame read from a file is: distinct column names, distinct row labels,
      one cell per row in every column.\<close>
  "wf_table t \<longleftrightarrow>
     distinct (column_names t) \<and> distinct (tindex t) \<and>
     list_all (\<lambda>(c, col). column_length col = length (tindex t)) (tcolumns t)"

section \<open>Text of the log lines\<close>

definition digit_char :: "nat \<Rightarrow> char" where
  "digit_char d = ''0123456789'' ! (d mod 10)"

fun show_nat :: "nat \<Rightarrow> string" where
  "show_nat n = (if n < 10 then [digit_char n] else show_nat (n div 10) @ [digit_char n])"

declare show_nat.simps [simp del]

function show_int :: "int \<Rightarrow> string" where
  \<comment> \<open>The decimal digits of an integer that is not negative.\<close>
  "show_int n = (if n < 10 then [digit_char (nat n)] else show_int (n div 10) @ [digit_char (nat (n mod 10))])"
  by pat_completeness auto
termination by (relation "measure nat") auto

declare show_int.simps [simp del]

definition quote :: "string \<Rightarrow> string" where
  \<comment> \<open>\<^verbatim>\<open>'{col}'\<close> in an f-string, and the repr of a plain string.\<close>
  "quote s = [CHR 0x27] @ s @ [CHR 0x27]"

fun join :: "string \<Rightarrow> string list \<Rightarrow> string" where
  "join sep [] = []"
| "join sep [s] = s"
| "join sep (s # r # rest) = s @ sep @ join sep (r # rest)"

definition repr_list :: "string list \<Rightarrow> string" where
  \<comment> \<open>How an f-string prints a list of plain strings: \<^verbatim>\<open>['A', 'B']\<close>.\<close>
  "repr_list cs = ''['' @ join '', '' (map quote cs) @ '']''"

definition fmt2f :: "f64 \<Rightarrow> string" where
  \<comment> \<open>\<^verbatim>\<open>{x:.2f}\<close>: sign, integer part, two decimals, the decimal expansion of the
      double rounded half to even.\<close>
  "fmt2f v =
     (case v of
        Fin x \<Rightarrow>
          (let n = round_half_even (\<bar>x\<bar> * 100)
           in (if x < 0 then ''-'' else '''') @ show_int (n div 100) @ ''.'' @
              [digit_char (nat (n div 10 mod 10)), digit_char (nat (n mod 10))])
      | PInf \<Rightarrow> ''inf''
      | NInf \<Rightarrow> ''-inf''
      | NaN \<Rightarrow> ''nan'')"

section \<open>Rule validation (\<^verbatim>\<open>apply_rules\<close>)\<close>

definition age_lt_18 :: "column \<Rightarrow> py_error + bool list" where
  \<comment> \<open>\<^verbatim>\<open>df['Age'] < 18\<close>: NaN compares false, a bool counts as 0 or 1, text against a
      number raises.\<close>
  "age_lt_18 col =
     (case col of
        IntCol xs \<Rightarrow> Inr (map (\<lambda>a. a < 18) xs)
      | FloatCol xs \<Rightarrow> Inr (map (\<lambda>v. flt v (Fin 18)) xs)
      | BoolCol xs \<Rightarrow> Inr (map (\<lambda>_. True) xs)
      | ObjCol xs \<Rightarrow>
          if list_ex (\<lambda>v. v \<noteq> None) xs then Inl TypeError else Inr (map (\<lambda>_. False) xs))"

definition is_employed :: "column \<Rightarrow> bool list" where
  \<comment> \<open>\<^verbatim>\<open>df['Employment_Status'] == 'Employed'\<close>: false for numbers, bools and NaN.\<close>
  "is_employed col =
     (case col of
        ObjCol xs \<Rightarrow> map (\<lambda>v. v = Some ''Employed'') xs
      | _ \<Rightarrow> replicate (column_length col) False)"

definition violation_mask :: "bool list \<Rightarrow> bool list \<Rightarrow> bool list" where
  "violation_mask m1 m2 = map (\<lambda>(a, b). a \<and> b) (zip m1 m2)"

definition violation_labels :: "nat list \<Rightarrow> bool list \<Rightarrow> nat list" where
  \<comment> \<open>\<^verbatim>\<open>violations.index\<close>: the labels of the rows the mask selects.\<close>
  "violation_labels idx m = map fst (filter snd (zip idx m))"

definition loc_set :: "nat list \<Rightarrow> nat list \<Rightarrow> string \<Rightarrow> column \<Rightarrow> column" where
  \<comment> \<open>\<^verbatim>\<open>df.loc[labels, c] = s\<close>: every row whose label is among \<open>labels\<close> gets the
      text. The rule only writes where a cell equals \<^verbatim>\<open>'Employed'\<close>, so the column
      written to is an object column; no other kind is ever reached.\<close>
  "loc_set idx labels s col =
     (case col of
        ObjCol xs \<Rightarrow> ObjCol (map (\<lambda>(l, v). if l \<in> set labels then Some s else v) (zip idx xs))
      | _ \<Rightarrow> col)"

definition apply_rules :: "table \<Rightarrow> py_error + (table \<times> string)" where
  "apply_rules df =
     (case (get_column df ''Age'', get_column df ''Employment_Status'') of
        (Some age, Some status) \<Rightarrow>
          (case age_lt_18 age of
             Inl e \<Rightarrow> Inl e
           | Inr m1 \<Rightarrow>
               let violations = violation_labels (tindex df) (violation_mask m1 (is_employed status))
               in if violations \<noteq> []
                  then Inr (set_column df ''Employment_Status''
                              (loc_set (tindex df) violations ''Unemployed'' status),
                            ''Found '' @ show_nat (length violations) @
                            '' rule violation(s): Age < 18 and Employed. Correcting status to '' @
                            quote ''Unemployed'' @ ''.'')
                  else Inr (df, ''No rule violations found.''))
      | _ \<Rightarrow> Inr (df, ''Could not apply age/employment rule: required columns not found.''))"

definition spec_violation :: "bool \<Rightarrow> string option \<Rightarrow> bool" where
  \<comment> \<open>The rule in the specification's words, for one row: its age is below 18 and its
      \<^verbatim>\<open>Employment_Status\<close> is \<^verbatim>\<open>"Employed"\<close>. It is what the behaviour of
      \<open>apply_rules\<close> is compared with.\<close>
  "spec_violation under_18 s \<longleftrightarrow> under_18 \<and> s = Some ''Employed''"

definition float_under_18 :: "f64 \<Rightarrow> bool" where
  \<comment> \<open>A missing age is not below 18.\<close>
  "float_under_18 v = (case v of Fin a \<Rightarrow> a < 18 | NInf \<Rightarrow> True | _ \<Rightarrow> False)"

definition ages_under_18 :: "column \<Rightarrow> bool list" where
  \<comment> \<open>Row by row, for an \<^verbatim>\<open>Age\<close> column that holds numbers: the age is below 18.\<close>
  "ages_under_18 col =
     (case col of
        IntCol xs \<Rightarrow> map (\<lambda>a. a < 18) xs
      | FloatCol xs \<Rightarrow> map float_under_18 xs
      | _ \<Rightarrow> [])"

section \<open>Imputation (\<^verbatim>\<open>impute_missing_values\<close>)\<close>

definition ma_mean :: "(f64 list \<Rightarrow> f64) \<Rightarrow> f64 list \<Rightarrow> f64" where
  \<comment> \<open>\<^verbatim>\<open>np.ma.mean\<close> of a column: the sum with the missing cells counted as zero,
      times one, over the number of observed cells; masked, hence NaN, without any.\<close>
  "ma_mean np_sum xs =
     (let cnt = length (observed xs)
      in if cnt = 0 then NaN
         else fdiv (fmul (np_sum (map (\<lambda>v. if v = NaN then Fin 0 else v) xs)) (Fin 1))
                   (Fin (of_nat cnt)))"

definition ma_median :: "f64 list \<Rightarrow> f64" where
  \<comment> \<open>\<^verbatim>\<open>np.ma.median\<close> of a column: half the sum of the two middle values of the
      observed cells in ascending order, the one middle value being taken twice when
      their number is odd.\<close>
  "ma_median xs =
     (let s = sort_f64 (observed xs); n = length s
      in if n = 0 then NaN
         else let high = s ! (n div 2);
                  low = (if odd n then high else s ! (n div 2 - 1))
              in fdiv (fadd low high) (Fin 2))"

definition fill :: "f64 \<Rightarrow> f64 list \<Rightarrow> f64 list" where
  "fill s xs = map (\<lambda>v. if v = NaN then s else v) xs"

text \<open>
  \<^verbatim>\<open>SimpleImputer(strategy=...).fit_transform(X)\<close> on a block of float columns (a list
  of columns here). The input validation rejects a block without rows or columns and a
  block with an infinite cell. The fit computes one statistic per column; the transform
  fills the missing cells of a column with its statistic and, with scikit-learn's default
  \<^verbatim>\<open>keep_empty_features=False\<close>, leaves out every column whose statistic is NaN, which
  is the case of a column with no observed cell.
\<close>

definition simple_imputer :: "(f64 list \<Rightarrow> f64) \<Rightarrow> f64 list list \<Rightarrow> py_error + f64 list list" where
  "simple_imputer stat block =
     (case block of
        [] \<Rightarrow> Inl ValueError
      | col # _ \<Rightarrow>
          if col = [] then Inl ValueError
          else if list_ex (\<lambda>xs. list_ex (\<lambda>v. v = PInf \<or> v = NInf) xs) block then Inl ValueError
          else Inr (concat (map (\<lambda>xs. if stat xs = NaN then [] else [fill (stat xs) xs]) block)))"

definition numeric_cells :: "table \<Rightarrow> string \<Rightarrow> f64 list" where
  \<comment> \<open>A column of the block handed to an imputer or an estimator, as float64.\<close>
  "numeric_cells df c = (case get_column df c of Some col \<Rightarrow> to_float col | None \<Rightarrow> [])"

definition select_numeric :: "table \<Rightarrow> string list \<Rightarrow> string list" where
  \<comment> \<open>\<^verbatim>\<open>df[columns].select_dtypes(include=np.number).columns.tolist()\<close>\<close>
  "select_numeric df columns =
     filter (\<lambda>c. case get_column df c of Some col \<Rightarrow> is_number col | None \<Rightarrow> False) columns"

definition assign_block :: "table \<Rightarrow> string list \<Rightarrow> f64 list list \<Rightarrow> py_error + table" where
  \<comment> \<open>\<^verbatim>\<open>df[cols] = array\<close>: pandas refuses an array whose shape does not fit; the
      columns assigned are float64 whatever they were.\<close>
  "assign_block df cols arr =
     (if length arr \<noteq> length cols \<or> list_ex (\<lambda>v. length v \<noteq> length (tindex df)) arr
      then Inl ValueError
      else Inr (fold (\<lambda>(c, v) d. set_column d c (FloatCol v)) (zip cols arr) df))"

text \<open>
  Two things the imputer uses are outside the repository and are parameters of the model,
  about which nothing is assumed: \<open>np_sum\<close>, numpy's float64 sum of an array, and
  \<open>knn\<close>, \<^verbatim>\<open>KNNImputer(n_neighbors=5).fit_transform\<close> of scikit-learn. A selection that
  names one numeric column twice hands the imputer a frame with a repeated column name,
  which it refuses.
\<close>

definition impute_missing_values ::
  "(f64 list \<Rightarrow> f64) \<Rightarrow> (f64 list list \<Rightarrow> py_error + f64 list list) \<Rightarrow>
   table \<Rightarrow> string list \<Rightarrow> string \<Rightarrow> py_error + (table \<times> string)" where
  "impute_missing_values np_sum knn df columns method =
     (if list_ex (\<lambda>c. c \<notin> set (column_names df)) columns then Inl KeyError
      else
        let numeric_cols = select_numeric df columns
        in if numeric_cols = []
           then Inr (df, ''No numeric columns selected for imputation.'')
           else
             let imputer = (if method = ''Mean'' then simple_imputer (ma_mean np_sum)
                            else if method = ''KNN'' then knn
                            else simple_imputer ma_median)
             in if \<not> distinct numeric_cols then Inl DuplicateError
                else case imputer (map (numeric_cells df) numeric_cols) of
                  Inl e \<Rightarrow> Inl e
                | Inr arr \<Rightarrow>
                    (case assign_block df numeric_cols arr of
                       Inl e \<Rightarrow> Inl e
                     | Inr df_imputed \<Rightarrow>
                         Inr (df_imputed,
                              ''Imputed missing values in columns '' @ repr_list numeric_cols @
                              '' using '' @ method @ ''.'')))"

section \<open>Outlier capping (\<^verbatim>\<open>handle_outliers\<close>)\<close>

definition lerp :: "f64 \<Rightarrow> f64 \<Rightarrow> f64 \<Rightarrow> rat \<Rightarrow> f64" where
  \<comment> \<open>numpy's linear interpolation between two neighbours \<open>a\<close> and \<open>b\<close>, with their
      difference \<open>d\<close> already taken: from \<open>a\<close> upwards in the lower half, from \<open>b\<close>
      downwards in the upper half.\<close>
  "lerp a b d t =
     (if 1 / 2 \<le> t then fsub b (fmul d (Fin (1 - t))) else fadd a (fmul d (Fin t)))"

definition quantile_pos :: "rat \<Rightarrow> nat \<Rightarrow> nat \<times> nat \<times> rat" where
  \<comment> \<open>For \<open>n > 0\<close> values: the two neighbouring ranks and the weight between them.\<close>
  "quantile_pos q n =
     (let pos = q * of_nat (n - 1);
          lo = nat \<lfloor>pos\<rfloor>;
          hi = min (lo + 1) (n - 1)
      in (lo, hi, pos - of_int \<lfloor>pos\<rfloor>))"

definition quantile_float :: "rat \<Rightarrow> f64 list \<Rightarrow> f64" where
  \<comment> \<open>\<^verbatim>\<open>Series.quantile(q)\<close> of a float64 column: over the observed cells; NaN when
      there is none.\<close>
  "quantile_float q xs =
     (let s = sort_f64 (observed xs)
      in if s = [] then NaN
         else let (lo, hi, t) = quantile_pos q (length s)
              in lerp (s ! lo) (s ! hi) (fsub (s ! hi) (s ! lo)) t)"

definition quantile_int :: "rat \<Rightarrow> int list \<Rightarrow> f64" where
  \<comment> \<open>Of an int64 column: the difference of the neighbours is taken in int64 and only
      then converted.\<close>
  "quantile_int q xs =
     (let s = sort xs
      in if s = [] then NaN
         else let (lo, hi, t) = quantile_pos q (length s)
              in lerp (cast_int (s ! lo)) (cast_int (s ! hi))
                      (cast_int (wrap64 (s ! hi - s ! lo))) t)"

definition quantile :: "rat \<Rightarrow> column \<Rightarrow> py_error + f64" where
  \<comment> \<open>A bool column with at least one row cannot be interpolated: numpy refuses to
      subtract booleans.\<close>
  "quantile q col =
     (case col of
        IntCol xs \<Rightarrow> Inr (quantile_int q xs)
      | FloatCol xs \<Rightarrow> Inr (quantile_float q xs)
      | BoolCol xs \<Rightarrow> if xs = [] then Inr NaN else Inl TypeError
      | ObjCol xs \<Rightarrow> Inl TypeError)"

definition iqr_bounds :: "column \<Rightarrow> py_error + (f64 \<times> f64)" where
  "iqr_bounds col =
     (case quantile (1 / 4) col of
        Inl e \<Rightarrow> Inl e
      | Inr Q1 \<Rightarrow>
          (case quantile (3 / 4) col of
             Inl e \<Rightarrow> Inl e
           | Inr Q3 \<Rightarrow>
               let IQR = fsub Q3 Q1
               in Inr (fsub Q1 (fmul (Fin (3 / 2)) IQR), fadd Q3 (fmul (Fin (3 / 2)) IQR))))"

definition is_outlier :: "f64 \<Rightarrow> f64 \<Rightarrow> f64 \<Rightarrow> bool" where
  \<comment> \<open>\<^verbatim>\<open>(x < lower_bound) | (x > upper_bound)\<close>; both comparisons are false on NaN.\<close>
  "is_outlier lb ub v \<longleftrightarrow> flt v lb \<or> flt ub v"

definition cap_lower :: "f64 \<Rightarrow> f64 list \<Rightarrow> f64 list" where
  \<comment> \<open>\<^verbatim>\<open>np.where(x < lower_bound, lower_bound, x)\<close>\<close>
  "cap_lower lb xs = map (\<lambda>v. if flt v lb then lb else v) xs"

definition cap_upper :: "f64 \<Rightarrow> f64 list \<Rightarrow> f64 list" where
  \<comment> \<open>\<^verbatim>\<open>np.where(x > upper_bound, upper_bound, x)\<close>\<close>
  "cap_upper ub xs = map (\<lambda>v. if flt ub v then ub else v) xs"

definition outlier_step :: "string \<Rightarrow> string \<Rightarrow> column \<Rightarrow> py_error + (column \<times> string list)" where
  \<comment> \<open>The body of the loop for one column of numeric dtype: the new column and the lines
      logged. The comparisons and the capping are done in float64, so an int64 column that
      is capped comes out as float64. Without an outlier the code assigns nothing; the
      column returned is then the old one, so that the assignment in \<open>outlier_loop\<close>
      leaves the table as it is.\<close>
  "outlier_step method col xs =
     (case iqr_bounds xs of
        Inl e \<Rightarrow> Inl e
      | Inr (lb, ub) \<Rightarrow>
          if filter (is_outlier lb ub) (to_float xs) \<noteq> []
          then Inr (FloatCol (cap_upper ub (cap_lower lb (to_float xs))),
                    [''Found '' @ show_nat (length (filter (is_outlier lb ub) (to_float xs))) @
                     '' outlier(s) in '' @ quote col @ '' using '' @ method @ ''.'',
                     ''Capped outliers in '' @ quote col @ '' at lower:'' @ fmt2f lb @
                     '' and upper:'' @ fmt2f ub @ ''.''])
          else Inr (xs, [''No outliers detected in '' @ quote col @ '' using '' @ method @ ''.'']))"

fun outlier_loop ::
  "string \<Rightarrow> string list \<Rightarrow> table \<times> string list \<Rightarrow> py_error + (table \<times> string list)" where
  "outlier_loop method [] st = Inr st"
| "outlier_loop method (col # cols) (df, log_messages) =
     (case get_column df col of
        None \<Rightarrow> outlier_loop method cols (df, log_messages)
      | Some xs \<Rightarrow>
          if is_numeric_dtype xs
          then (case outlier_step method col xs of
                  Inl e \<Rightarrow> Inl e
                | Inr (ys, lines) \<Rightarrow>
                    outlier_loop method cols (set_column df col ys, log_messages @ lines))
          else outlier_loop method cols (df, log_messages))"

definition handle_outliers :: "table \<Rightarrow> string list \<Rightarrow> string \<Rightarrow> py_error + (table \<times> string)" where
  "handle_outliers df columns method =
     (let valid_columns = filter (\<lambda>col. col \<in> set (column_names df)) columns
      in case outlier_loop method valid_columns (df, []) of
           Inl e \<Rightarrow> Inl e
         | Inr (df_outliers_handled, log_messages) \<Rightarrow>
             Inr (df_outliers_handled,
                  join [CHR 0x0A]
                    (if log_messages = [] then [''No numeric columns selected for outlier handling.'']
                     else log_messages)))"

section \<open>Weighted estimates (\<^verbatim>\<open>calculate_estimates\<close>)\<close>

record estimate =
  variable :: string
  unweighted_mean :: f64
  weighted_mean :: f64

definition present :: "column \<Rightarrow> bool list" where
  \<comment> \<open>Row by row: the cell is not missing. Only float64 and object columns have
      missing cells.\<close>
  "present col =
     (case col of
        FloatCol xs \<Rightarrow> map (\<lambda>v. v \<noteq> NaN) xs
      | ObjCol xs \<Rightarrow> map (\<lambda>v. v \<noteq> None) xs
      | _ \<Rightarrow> replicate (column_length col) True)"

definition dropna :: "column \<Rightarrow> column \<Rightarrow> (f64 \<times> f64) list" where
  \<comment> \<open>\<^verbatim>\<open>df[[col, weight_column]].dropna()\<close>: the rows where both cells are present,
      the two cells as float64 (an object cell has no float: the rows are only counted
      then).\<close>
  "dropna xs ws =
     map snd (filter fst (zip (map (\<lambda>(a, b). a \<and> b) (zip (present xs) (present ws)))
                              (zip (to_float xs)
                                   (case ws of ObjCol ts \<Rightarrow> map (\<lambda>_. NaN) ts | _ \<Rightarrow> to_float ws))))"

definition np_average :: "(f64 list \<Rightarrow> f64) \<Rightarrow> f64 list \<Rightarrow> f64 list \<Rightarrow> py_error + f64" where
  \<comment> \<open>\<^verbatim>\<open>np.average(a, weights=w)\<close>: the sum of the products over the sum of the
      weights; it raises when the weights sum to zero.\<close>
  "np_average np_sum vs ws =
     (let scl = np_sum ws
      in if scl = Fin 0 then Inl ZeroDivisionError
         else Inr (fdiv (np_sum (map (\<lambda>(v, w). fmul v w) (zip vs ws))) scl))"

text \<open>
  The two means of a column are computed by two libraries. pandas computes the unweighted
  mean as the sum of the values (\<open>pd_sum\<close>) over their number; numpy computes the
  weighted mean as the sum of the products over the sum of the weights (both \<open>np_sum\<close>).
  Nothing is assumed about either sum.
\<close>

definition column_estimate ::
  "(f64 list \<Rightarrow> f64) \<Rightarrow> (f64 list \<Rightarrow> f64) \<Rightarrow> column \<Rightarrow> column \<Rightarrow>
   py_error + (f64 \<times> f64) option" where
  \<comment> \<open>One pass of the loop body: nothing for an empty subset, else the two means.
      Weights that are text cannot be multiplied with the values.\<close>
  "column_estimate pd_sum np_sum weights xs =
     (let valid_data = dropna xs weights
      in if valid_data = [] then Inr None
         else (case weights of
                 ObjCol _ \<Rightarrow> Inl TypeError
               | _ \<Rightarrow>
                   (case np_average np_sum (map fst valid_data) (map snd valid_data) of
                      Inl e \<Rightarrow> Inl e
                    | Inr wm \<Rightarrow>
                        Inr (Some (fdiv (pd_sum (map fst valid_data))
                                        (Fin (of_nat (length valid_data))), wm)))))"

fun estimate_loop ::
  "(f64 list \<Rightarrow> f64) \<Rightarrow> (f64 list \<Rightarrow> f64) \<Rightarrow> table \<Rightarrow> string \<Rightarrow> string list \<Rightarrow> (string \<times> f64 \<times> f64) list \<Rightarrow>
   py_error + (string \<times> f64 \<times> f64) list" where
  "estimate_loop pd_sum np_sum df weight_column [] summary = Inr summary"
| "estimate_loop pd_sum np_sum df weight_column (col # cols) summary =
     (if col \<noteq> weight_column
      then (case (get_column df col, get_column df weight_column) of
              (Some xs, Some weights) \<Rightarrow>
                (case column_estimate pd_sum np_sum weights xs of
                   Inl e \<Rightarrow> Inl e
                 | Inr None \<Rightarrow> estimate_loop pd_sum np_sum df weight_column cols summary
                 | Inr (Some m) \<Rightarrow>
                     estimate_loop pd_sum np_sum df weight_column cols (set_in col m summary))
            | _ \<Rightarrow> Inl KeyError)
      else estimate_loop pd_sum np_sum df weight_column cols summary)"

definition calculate_estimates ::
  "(f64 list \<Rightarrow> f64) \<Rightarrow> (f64 list \<Rightarrow> f64) \<Rightarrow> table \<Rightarrow> string \<Rightarrow> py_error + (estimate list \<times> string)" where
  "calculate_estimates pd_sum np_sum df weight_column =
     (if weight_column \<notin> set (column_names df)
      then Inr ([], ''Weight column '' @ quote weight_column @ '' not found in the dataframe.'')
      else
        let numeric_cols = select_numeric df (column_names df)
        in case estimate_loop pd_sum np_sum df weight_column numeric_cols [] of
             Inl e \<Rightarrow> Inl e
           | Inr summary \<Rightarrow>
               if summary = []
               then Inr ([], ''No valid numeric columns to generate estimates for.'')
               else Inr (map (\<lambda>(c, um, wm).
                                \<lparr>variable = c, unweighted_mean = um, weighted_mean = wm\<rparr>) summary,
                         ''Calculated weighted and unweighted means using '' @
                         quote weight_column @ ''.''))"

section \<open>The orchestrator (the Run Analysis handler of \<^verbatim>\<open>app.py\<close>)\<close>

record analysis =
  df_final :: table
  df_estimates :: "estimate list"
  logs :: "string list"

definition run_analysis ::
  "(f64 list \<Rightarrow> f64) \<Rightarrow> (f64 list \<Rightarrow> f64) \<Rightarrow> (f64 list list \<Rightarrow> py_error + f64 list list) \<Rightarrow>
   table \<Rightarrow> string list \<Rightarrow> string \<Rightarrow> string list \<Rightarrow> string \<Rightarrow> py_error + analysis" where
  "run_analysis pd_sum np_sum knn df_raw imputation_cols imputation_method outlier_cols weight_column =
     (case impute_missing_values np_sum knn df_raw imputation_cols imputation_method of
        Inl e \<Rightarrow> Inl e
      | Inr (df_imputed, log1) \<Rightarrow>
          (case handle_outliers df_imputed outlier_cols ''IQR'' of
             Inl e \<Rightarrow> Inl e
           | Inr (df_outliers_handled, log2) \<Rightarrow>
               (case apply_rules df_outliers_handled of
                  Inl e \<Rightarrow> Inl e
                | Inr (df_validated, log3) \<Rightarrow>
                    (case calculate_estimates pd_sum np_sum df_validated weight_column of
                       Inl e \<Rightarrow> Inl e
                     | Inr (estimates, log4) \<Rightarrow>
                         Inr \<lparr>df_final = df_validated, df_estimates = estimates,
                              logs = [log1, log2, log3, log4]\<rparr>))))"

section \<open>Notions used in the claims\<close>

text \<open>
  \<open>clamp\<close>: what capping is expected to do to a single value. \<open>has_value\<close>: a cell is
  present, so that a row belongs to the pairwise-complete subset of two columns when both
  have a value there. \<open>same_rows\<close>: the second table has the row index and the column
  names of the first, and is well formed if the first is (so every column still has one
  cell per row). \<open>same_observed\<close>: two tables have the same columns, and each float
  column has the same non-missing values in the same order; where the missing cells sit,
  and how many there are, may differ.
\<close>

definition clamp :: "f64 \<Rightarrow> f64 \<Rightarrow> f64 \<Rightarrow> f64" where
  \<comment> \<open>Winsorising one value: the nearest point of the interval from \<open>lb\<close> to \<open>ub\<close>.\<close>
  "clamp lb ub v = (if flt v lb then lb else if flt ub v then ub else v)"

definition has_value :: "column \<Rightarrow> nat \<Rightarrow> bool" where
  \<comment> \<open>Row \<open>i\<close> of the column holds a value (is not missing).\<close>
  "has_value col i \<longleftrightarrow> i < column_length col \<and> present col ! i"

definition same_rows :: "table \<Rightarrow> table \<Rightarrow> bool" where
  "same_rows df df' \<longleftrightarrow>
     tindex df' = tindex df \<and> column_names df' = column_names df \<and>
     (wf_table df \<longrightarrow> wf_table df')"

definition same_values :: "column \<Rightarrow> column \<Rightarrow> bool" where
  "same_values a b =
     (case (a, b) of
        (FloatCol xs, FloatCol ys) \<Rightarrow> observed xs = observed ys
      | (IntCol xs, IntCol ys) \<Rightarrow> xs = ys
      | (BoolCol xs, BoolCol ys) \<Rightarrow> xs = ys
      | (ObjCol xs, ObjCol ys) \<Rightarrow> True
      | _ \<Rightarrow> False)"

definition same_observed :: "table \<Rightarrow> table \<Rightarrow> bool" where
  "same_observed d1 d2 \<longleftrightarrow>
     list_all2 (\<lambda>(c1, a) (c2, b). c1 = c2 \<and> same_values a b) (tcolumns d1) (tcolumns d2)"

section \<open>Example tables\<close>

text \<open>
  The survey of the specification's scenario: one respondent under 18 recorded as employed,
  one respondent with a missing age. Then the same survey after rule validation alone,
  after median imputation of \<^verbatim>\<open>Age\<close>, after capping it as well, and after all three.
\<close>

definition survey_raw :: table where
  "survey_raw =
     \<lparr>tindex = [0, 1, 2, 3],
      tcolumns =
        [(''Age'', FloatCol [Fin 16, Fin 25, Fin 40, NaN]),
         (''Employment_Status'',
          ObjCol [Some ''Employed'', Some ''Employed'', Some ''Unemployed'', Some ''Employed'']),
         (''Design_Weight'', IntCol [1, 2, 1, 1])]\<rparr>"

definition survey_validated :: table where
  "survey_validated =
     \<lparr>tindex = [0, 1, 2, 3],
      tcolumns =
        [(''Age'', FloatCol [Fin 16, Fin 25, Fin 40, NaN]),
         (''Employment_Status'',
          ObjCol [Some ''Unemployed'', Some ''Employed'', Some ''Unemployed'', Some ''Employed'']),
         (''Design_Weight'', IntCol [1, 2, 1, 1])]\<rparr>"

definition survey_imputed :: table where
  "survey_imputed =
     \<lparr>tindex = [0, 1, 2, 3],
      tcolumns =
        [(''Age'', FloatCol [Fin 16, Fin 25, Fin 40, Fin 25]),
         (''Employment_Status'',
          ObjCol [Some ''Employed'', Some ''Employed'', Some ''Unemployed'', Some ''Employed'']),
         (''Design_Weight'', IntCol [1, 2, 1, 1])]\<rparr>"

definition survey_capped :: table where
  "survey_capped =
     \<lparr>tindex = [0, 1, 2, 3],
      tcolumns =
        [(''Age'', FloatCol [Fin 16, Fin 25, Fin (151 / 4), Fin 25]),
         (''Employment_Status'',
          ObjCol [Some ''Employed'', Some ''Employed'', Some ''Unemployed'', Some ''Employed'']),
         (''Design_Weight'', IntCol [1, 2, 1, 1])]\<rparr>"

definition survey_final :: table where
  "survey_final =
     \<lparr>tindex = [0, 1, 2, 3],
      tcolumns =
        [(''Age'', FloatCol [Fin 16, Fin 25, Fin (151 / 4), Fin 25]),
         (''Employment_Status'',
          ObjCol [Some ''Unemployed'', Some ''Employed'', Some ''Unemployed'', Some ''Employed'']),
         (''Design_Weight'', IntCol [1, 2, 1, 1])]\<rparr>"


text \<open>A survey whose ages were typed in as words, so that the column holds text.\<close>

definition survey_text_age :: table where
  "survey_text_age =
     \<lparr>tindex = [0, 1],
      tcolumns =
        [(''Age'', ObjCol [Some ''sixteen'', Some ''forty'']),
         (''Employment_Status'', ObjCol [Some ''Employed'', Some ''Employed''])]\<rparr>"

text \<open>A survey without the two columns of the rule, and one whose status is a number
  code.\<close>

definition survey_no_status :: table where
  "survey_no_status =
     \<lparr>tindex = [0, 1],
      tcolumns = [(''Age'', IntCol [16, 25]), (''Design_Weight'', IntCol [1, 2])]\<rparr>"

definition survey_coded_status :: table where
  "survey_coded_status =
     \<lparr>tindex = [0, 1],
      tcolumns = [(''Age'', IntCol [16, 25]), (''Employment_Status'', IntCol [1, 2])]\<rparr>"

text \<open>One low value next to three equal high ones, and the same column after one capping
  and after two.\<close>

definition skewed :: table where
  "skewed = \<lparr>tindex = [0, 1, 2, 3], tcolumns = [(''Score'', IntCol [0, 100, 100, 100])]\<rparr>"

definition skewed_capped :: table where
  "skewed_capped =
     \<lparr>tindex = [0, 1, 2, 3], tcolumns = [(''Score'', FloatCol [Fin (75 / 2), Fin 100, Fin 100, Fin 100])]\<rparr>"

definition skewed_recapped :: table where
  "skewed_recapped =
     \<lparr>tindex = [0, 1, 2, 3], tcolumns = [(''Score'', FloatCol [Fin (975 / 16), Fin 100, Fin 100, Fin 100])]\<rparr>"

text \<open>The column of the specification's second scenario, with and without gaps.\<close>

definition scores :: table where
  "scores = \<lparr>tindex = [0, 1, 2, 3, 4],
             tcolumns = [(''Score'', FloatCol [Fin 1, Fin 2, Fin 3, Fin 4, Fin 100])]\<rparr>"

definition scores_gaps :: table where
  "scores_gaps = \<lparr>tindex = [0, 1, 2, 3, 4, 5, 6],
                  tcolumns = [(''Score'', FloatCol [Fin 1, NaN, Fin 2, Fin 3, Fin 4, NaN, Fin 100])]\<rparr>"

text \<open>Weights that never meet a value; weights that are 1 wherever an age is known; and
  a survey in which every age and every weight is the double nearest to one tenth.\<close>

definition survey_disjoint :: table where
  "survey_disjoint =
     \<lparr>tindex = [0, 1],
      tcolumns = [(''Age'', FloatCol [Fin 16, NaN]), (''Design_Weight'', FloatCol [NaN, Fin 2])]\<rparr>"




section \<open>Columns of a table\<close>

lemma map_of_set_in: "map_of (set_in c v kvs) = (map_of kvs)(c \<mapsto> v)"
  by (induction kvs) (auto simp: fun_eq_iff)

lemma map_fst_set_in: "c \<in> fst ` set kvs \<Longrightarrow> map fst (set_in c v kvs) = map fst kvs"
  by (induction kvs) force+

lemma set_in_same: "map_of kvs c = Some v \<Longrightarrow> set_in c v kvs = kvs"
  by (induction kvs) (auto split: if_splits)

lemma set_set_in: "set (set_in c v kvs) \<subseteq> insert (c, v) (set kvs)"
  by (induction kvs) (auto split: if_splits)



lemma get_column_set_column:
  "get_column (set_column df c v) c' = (if c' = c then Some v else get_column df c')"
  by (simp add: get_column_def set_column_def map_of_set_in)

lemma get_column_names: "get_column df c = Some col \<Longrightarrow> c \<in> set (column_names df)"
  by (auto simp: get_column_def column_names_def dest: map_of_SomeD intro: rev_image_eqI)

lemma get_column_None: "get_column df c = None \<longleftrightarrow> c \<notin> set (column_names df)"
  by (simp add: get_column_def column_names_def map_of_eq_None_iff)

lemma column_names_set_column:
  "c \<in> set (column_names df) \<Longrightarrow> column_names (set_column df c v) = column_names df"
  by (simp add: column_names_def set_column_def map_fst_set_in)

lemma tindex_set_column: "tindex (set_column df c v) = tindex df"
  by (simp add: set_column_def)

lemma set_column_same: "get_column df c = Some v \<Longrightarrow> set_column df c v = df"
  by (simp add: get_column_def set_column_def set_in_same)

lemma wf_column_length:
  "wf_table df \<Longrightarrow> get_column df c = Some col \<Longrightarrow> column_length col = length (tindex df)"
  by (auto simp: wf_table_def get_column_def list_all_iff dest!: map_of_SomeD)

lemma wf_set_column:
  assumes "wf_table df" "c \<in> set (column_names df)" "column_length v = length (tindex df)"
  shows "wf_table (set_column df c v)"
proof -
  have "set (tcolumns (set_column df c v)) \<subseteq> insert (c, v) (set (tcolumns df))"
    by (simp add: set_column_def set_set_in)
  with assms show ?thesis
    by (auto simp: wf_table_def column_names_set_column tindex_set_column list_all_iff)
qed

lemma length_to_float: "is_numeric_dtype col \<Longrightarrow> length (to_float col) = column_length col"
  by (cases col) (simp_all add: to_float_def column_length_def is_numeric_dtype_def)

lemma length_present: "length (present col) = column_length col"
  by (cases col) (simp_all add: present_def column_length_def)

lemma is_number_numeric: "is_number col \<Longrightarrow> is_numeric_dtype col"
  by (cases col) (simp_all add: is_number_def is_numeric_dtype_def)

lemma select_numeric_names: "set (select_numeric df columns) \<subseteq> set (column_names df)"
  by (auto simp: select_numeric_def dest: get_column_names split: option.splits)

lemma select_numeric_set:
  "c \<in> set (select_numeric df columns) \<longleftrightarrow>
     c \<in> set columns \<and> (\<exists>col. get_column df c = Some col \<and> is_number col)"
  by (auto simp: select_numeric_def split: option.splits)

section \<open>Rows and index are kept\<close>

lemma same_rows_refl: "same_rows df df"
  by (simp add: same_rows_def)

lemma same_rows_trans: "same_rows a b \<Longrightarrow> same_rows b c \<Longrightarrow> same_rows a c"
  by (simp add: same_rows_def)

lemma same_rows_set_column:
  "c \<in> set (column_names df) \<Longrightarrow> column_length v = length (tindex df) \<or> \<not> wf_table df \<Longrightarrow>
   same_rows df (set_column df c v)"
  by (auto simp: same_rows_def tindex_set_column column_names_set_column wf_set_column)

lemma same_rows_assign:
  assumes "set cols \<subseteq> set (column_names df)"
    and "\<forall>v\<in>set arr. length v = length (tindex df)"
  shows "same_rows df (fold (\<lambda>(c, v) d. set_column d c (FloatCol v)) (zip cols arr) df)"
  using assms
proof (induction cols arbitrary: arr df)
  case Nil
  then show ?case by (simp add: same_rows_refl)
next
  case (Cons c cols)
  show ?case
  proof (cases arr)
    case Nil
    then show ?thesis by (simp add: same_rows_refl)
  next
    case (Cons v vs)
    let ?d = "set_column df c (FloatCol v)"
    from Cons.prems Cons have s1: "same_rows df ?d"
      by (intro same_rows_set_column) (auto simp: column_length_def)
    then have eq: "column_names ?d = column_names df" "tindex ?d = tindex df"
      by (auto simp: same_rows_def)
    have "same_rows ?d (fold (\<lambda>(c, v) d. set_column d c (FloatCol v)) (zip cols vs) ?d)"
      using Cons.prems Cons by (intro Cons.IH) (auto simp: eq)
    with s1 show ?thesis
      using Cons by (auto intro: same_rows_trans)
  qed
qed

lemma impute_same_rows:
  assumes "impute_missing_values np_sum knn df columns method = Inr (df', msg)"
  shows "same_rows df df'"
proof (cases "select_numeric df columns = []")
  case True
  with assms show ?thesis
    by (auto simp: impute_missing_values_def same_rows_refl split: if_splits)
next
  case False
  with assms obtain arr where
    a: "assign_block df (select_numeric df columns) arr = Inr df'"
    by (auto simp: impute_missing_values_def Let_def split: if_splits sum.splits)
  then have "\<forall>v\<in>set arr. length v = length (tindex df)"
    and "df' = fold (\<lambda>(c, v) d. set_column d c (FloatCol v))
                 (zip (select_numeric df columns) arr) df"
    by (auto simp: assign_block_def list_ex_iff split: if_splits)
  then show ?thesis
    by (simp add: same_rows_assign select_numeric_names)
qed

lemma outlier_step_cases:
  assumes "outlier_step method col xs = Inr (ys, lines)"
  obtains lb ub where "iqr_bounds xs = Inr (lb, ub)"
    and "ys = (if filter (is_outlier lb ub) (to_float xs) = [] then xs
               else FloatCol (cap_upper ub (cap_lower lb (to_float xs))))"
  using assms
  by (auto simp: outlier_step_def split: sum.splits prod.splits if_splits)

lemma iqr_bounds_numeric: "iqr_bounds xs = Inr b \<Longrightarrow> is_numeric_dtype xs"
  by (cases xs) (auto simp: iqr_bounds_def quantile_def is_numeric_dtype_def split: sum.splits)

lemma length_outlier_step:
  assumes "outlier_step method col xs = Inr (ys, lines)"
  shows "column_length ys = column_length xs"
proof -
  from assms obtain lb ub where b: "iqr_bounds xs = Inr (lb, ub)"
    and ys: "ys = (if filter (is_outlier lb ub) (to_float xs) = [] then xs
               else FloatCol (cap_upper ub (cap_lower lb (to_float xs))))"
    by (rule outlier_step_cases)
  from b have "length (to_float xs) = column_length xs"
    by (intro length_to_float iqr_bounds_numeric)
  then show ?thesis
    by (simp add: ys column_length_def cap_upper_def cap_lower_def)
qed

lemma outlier_loop_same_rows:
  "outlier_loop method cols (df, lines) = Inr (df', lines') \<Longrightarrow> same_rows df df'"
proof (induction cols arbitrary: df lines)
  case Nil
  then show ?case by (simp add: same_rows_refl)
next
  case (Cons col cols)
  show ?case
  proof (cases "get_column df col")
    case None
    with Cons show ?thesis by simp
  next
    case (Some xs)
    show ?thesis
    proof (cases "is_numeric_dtype xs")
      case False
      with Some Cons show ?thesis by simp
    next
      case True
      with Cons.prems Some obtain ys ls where st: "outlier_step method col xs = Inr (ys, ls)"
        and l: "outlier_loop method cols (set_column df col ys, lines @ ls) = Inr (df', lines')"
        by (auto split: sum.splits)
      from st have "column_length ys = column_length xs"
        by (rule length_outlier_step)
      with Some have "same_rows df (set_column df col ys)"
        by (intro same_rows_set_column) (auto dest: get_column_names wf_column_length)
      moreover from l have "same_rows (set_column df col ys) df'"
        by (rule Cons.IH)
      ultimately show ?thesis by (rule same_rows_trans)
    qed
  qed
qed

lemma handle_outliers_loop:
  assumes "handle_outliers df columns method = Inr (df', msg)"
  obtains lines where
    "outlier_loop method (filter (\<lambda>col. col \<in> set (column_names df)) columns) (df, []) = Inr (df', lines)"
    and "msg = join [CHR 0x0A]
                 (if lines = [] then [''No numeric columns selected for outlier handling.''] else lines)"
  using assms by (auto simp: handle_outliers_def split: sum.splits)

lemma handle_outliers_same_rows:
  assumes "handle_outliers df columns method = Inr (df', msg)"
  shows "same_rows df df'"
  using assms by (auto elim!: handle_outliers_loop dest: outlier_loop_same_rows)

section \<open>Rule validation\<close>

lemma violation_labels_Nil:
  "violation_labels idx m = [] \<longleftrightarrow> (\<forall>i. i < length idx \<and> i < length m \<longrightarrow> \<not> m ! i)"
proof -
  have "(\<forall>x\<in>set (zip idx m). \<not> snd x) \<longleftrightarrow> (\<forall>i. i < length idx \<and> i < length m \<longrightarrow> \<not> m ! i)"
  proof
    assume h: "\<forall>x\<in>set (zip idx m). \<not> snd x"
    show "\<forall>i. i < length idx \<and> i < length m \<longrightarrow> \<not> m ! i"
    proof (intro allI impI)
      fix i assume i: "i < length idx \<and> i < length m"
      then have "zip idx m ! i \<in> set (zip idx m)" by (intro nth_mem) simp
      with h i show "\<not> m ! i" by fastforce
    qed
  next
    assume h: "\<forall>i. i < length idx \<and> i < length m \<longrightarrow> \<not> m ! i"
    show "\<forall>x\<in>set (zip idx m). \<not> snd x"
    proof
      fix x assume "x \<in> set (zip idx m)"
      then obtain i where "i < length (zip idx m)" "zip idx m ! i = x"
        by (auto simp: in_set_conv_nth)
      with h show "\<not> snd x" by auto
    qed
  qed
  then show ?thesis
    by (simp add: violation_labels_def filter_empty_conv)
qed

lemma violation_labels_mem:
  "i < length idx \<Longrightarrow> i < length m \<Longrightarrow> m ! i \<Longrightarrow> idx ! i \<in> set (violation_labels idx m)"
  unfolding violation_labels_def
  by (force simp: in_set_zip image_iff)

lemma length_filter_snd_zip:
  "length idx = length m \<Longrightarrow> length (filter snd (zip idx m)) = length (filter (\<lambda>b. b) m)"
  by (induction idx m rule: list_induct2) auto

lemma violation_labels_iff:
  assumes "distinct idx" "length idx = length m" "i < length idx"
  shows "idx ! i \<in> set (violation_labels idx m) \<longleftrightarrow> m ! i"
proof
  assume "idx ! i \<in> set (violation_labels idx m)"
  then obtain j where j: "j < length idx" "j < length m" "m ! j" "idx ! j = idx ! i"
    by (auto simp: violation_labels_def in_set_zip)
  with assms have "j = i" by (simp add: nth_eq_iff_index_eq)
  with j show "m ! i" by simp
next
  assume "m ! i"
  with assms show "idx ! i \<in> set (violation_labels idx m)"
    by (intro violation_labels_mem) auto
qed

lemma flt_18: "flt v (Fin 18) = float_under_18 v"
  by (cases v) (simp_all add: float_under_18_def)

lemma age_lt_18_number:
  "is_number age \<Longrightarrow> age_lt_18 age = Inr (ages_under_18 age)"
  by (cases age) (simp_all add: is_number_def age_lt_18_def ages_under_18_def flt_18)

lemma length_ages_under_18:
  "is_number age \<Longrightarrow> length (ages_under_18 age) = column_length age"
  by (cases age) (simp_all add: is_number_def ages_under_18_def column_length_def)

lemma length_age_lt_18: "age_lt_18 age = Inr m1 \<Longrightarrow> length m1 = column_length age"
  by (cases age) (auto simp: age_lt_18_def column_length_def split: if_splits)

lemma length_is_employed: "length (is_employed status) = column_length status"
  by (cases status) (simp_all add: is_employed_def column_length_def)

lemma is_employed_not_text:
  "is_numeric_dtype status \<Longrightarrow> is_employed status = replicate (column_length status) False"
  by (cases status) (simp_all add: is_employed_def is_numeric_dtype_def)

lemma apply_rules_mask:
  assumes wf: "wf_table df"
    and age: "get_column df ''Age'' = Some age"
    and m1: "age_lt_18 age = Inr m1"
    and status: "get_column df ''Employment_Status'' = Some (ObjCol ss)"
  defines "n \<equiv> length (filter (\<lambda>(u, s). spec_violation u s) (zip m1 ss))"
  defines "new \<equiv> ObjCol (map (\<lambda>(u, s). if spec_violation u s then Some ''Unemployed'' else s) (zip m1 ss))"
  shows "apply_rules df =
           Inr (set_column df ''Employment_Status'' new,
                if n = 0 then ''No rule violations found.''
                else ''Found '' @ show_nat n @
                     '' rule violation(s): Age < 18 and Employed. Correcting status to '' @
                     quote ''Unemployed'' @ ''.'')"
proof -
  let ?idx = "tindex df"
  let ?mask = "violation_mask m1 (is_employed (ObjCol ss))"
  let ?V = "violation_labels ?idx ?mask"
  have la: "length m1 = length ?idx"
    using wf_column_length [OF wf age] length_age_lt_18 [OF m1] by simp
  from wf status have ls: "length ss = length ?idx"
    by (auto dest: wf_column_length simp: column_length_def)
  from wf have di: "distinct ?idx" by (simp add: wf_table_def)
  have lm: "length ?mask = length ?idx"
    by (simp add: violation_mask_def is_employed_def la ls)
  have mask: "?mask = map (\<lambda>(u, s). spec_violation u s) (zip m1 ss)"
    by (rule nth_equalityI)
       (auto simp: violation_mask_def is_employed_def la ls spec_violation_def)
  have len: "length ?V = n"
  proof -
    have "length ?V = length (filter (\<lambda>b. b) ?mask)"
      by (simp add: violation_labels_def length_filter_snd_zip lm)
    also have "\<dots> = n"
      unfolding mask n_def by (simp add: filter_map o_def case_prod_unfold)
    finally show ?thesis .
  qed
  have new: "loc_set ?idx ?V ''Unemployed'' (ObjCol ss) = new"
  proof -
    have "map (\<lambda>(l, v). if l \<in> set ?V then Some ''Unemployed'' else v) (zip ?idx ss) =
          map (\<lambda>(u, s). if spec_violation u s then Some ''Unemployed'' else s) (zip m1 ss)"
    proof (rule nth_equalityI)
      show "length (map (\<lambda>(l, v). if l \<in> set ?V then Some ''Unemployed'' else v) (zip ?idx ss)) =
            length (map (\<lambda>(u, s). if spec_violation u s then Some ''Unemployed'' else s) (zip m1 ss))"
        by (simp add: la ls)
    next
      fix i
      assume "i < length (map (\<lambda>(l, v). if l \<in> set ?V then Some ''Unemployed'' else v) (zip ?idx ss))"
      then have i: "i < length ?idx" by simp
      with di lm have "?idx ! i \<in> set ?V \<longleftrightarrow> ?mask ! i"
        by (intro violation_labels_iff) auto
      also have "\<dots> \<longleftrightarrow> spec_violation (m1 ! i) (ss ! i)"
        using i by (simp add: mask la ls)
      finally show "map (\<lambda>(l, v). if l \<in> set ?V then Some ''Unemployed'' else v) (zip ?idx ss) ! i =
            map (\<lambda>(u, s). if spec_violation u s then Some ''Unemployed'' else s) (zip m1 ss) ! i"
        using i by (simp add: la ls)
    qed
    then show ?thesis by (simp add: loc_set_def new_def)
  qed
  show ?thesis
  proof (cases "?V = []")
    case True
    then have n0: "n = 0" using len by simp
    from True have "loc_set ?idx ?V ''Unemployed'' (ObjCol ss) = ObjCol ss"
      by (simp add: loc_set_def ls map_snd_zip case_prod_unfold)
    with new have "new = ObjCol ss" by simp
    with status have "set_column df ''Employment_Status'' new = df"
      by (simp add: set_column_same)
    with True n0 age status m1 show ?thesis
      by (simp add: apply_rules_def)
  next
    case False
    then have "n \<noteq> 0" using len by auto
    with False age status m1 new len show ?thesis
      by (simp add: apply_rules_def Let_def)
  qed
qed

lemma apply_rules_cases:
  assumes "apply_rules df = Inr (df', msg)"
  shows "df' = df \<or>
         (\<exists>status V. get_column df ''Employment_Status'' = Some status \<and>
            df' = set_column df ''Employment_Status'' (loc_set (tindex df) V ''Unemployed'' status))"
proof (cases "get_column df ''Age''")
  case None
  with assms show ?thesis by (simp add: apply_rules_def)
next
  case (Some age)
  note age = this
  show ?thesis
  proof (cases "get_column df ''Employment_Status''")
    case None
    with age assms show ?thesis by (simp add: apply_rules_def)
  next
    case (Some status)
    from assms age Some obtain m1 where m1: "age_lt_18 age = Inr m1"
      by (auto simp: apply_rules_def split: sum.splits)
    show ?thesis
    proof (cases "violation_labels (tindex df) (violation_mask m1 (is_employed status)) = []")
      case True
      with assms age Some m1 show ?thesis by (simp add: apply_rules_def)
    next
      case False
      with assms age Some m1
      have "df' = set_column df ''Employment_Status''
                    (loc_set (tindex df)
                       (violation_labels (tindex df) (violation_mask m1 (is_employed status)))
                       ''Unemployed'' status)"
        by (simp add: apply_rules_def Let_def)
      with Some show ?thesis by blast
    qed
  qed
qed

lemma apply_rules_same_rows:
  assumes "apply_rules df = Inr (df', msg)"
  shows "same_rows df df'"
proof -
  from apply_rules_cases [OF assms] show ?thesis
  proof (elim disjE exE conjE)
    assume "df' = df"
    then show ?thesis by (simp add: same_rows_refl)
  next
    fix status V
    assume st: "get_column df ''Employment_Status'' = Some status"
      and d: "df' = set_column df ''Employment_Status'' (loc_set (tindex df) V ''Unemployed'' status)"
    have "column_length (loc_set (tindex df) V ''Unemployed'' status) = length (tindex df) \<or> \<not> wf_table df"
      using wf_column_length [OF _ st]
      by (cases status) (auto simp: loc_set_def column_length_def)
    with st show ?thesis
      unfolding d by (intro same_rows_set_column) (auto dest: get_column_names)
  qed
qed

text \<open>
  C8. Rule validation is idempotent: when \<open>apply_rules\<close> has returned a table, applying it
  to that table returns the same table again and reports no violation (or, when one of
  the two columns is absent, that the rule could not be applied).
\<close>

theorem apply_rules_idempotent:
  assumes "apply_rules df = Inr (df', msg)"
  shows "apply_rules df' =
           Inr (df', if get_column df ''Age'' \<noteq> None \<and> get_column df ''Employment_Status'' \<noteq> None
                     then ''No rule violations found.''
                     else ''Could not apply age/employment rule: required columns not found.'')"
proof (cases "get_column df ''Age''")
  case None
  with assms show ?thesis by (simp add: apply_rules_def)
next
  case (Some age)
  note age = this
  show ?thesis
  proof (cases "get_column df ''Employment_Status''")
    case None
    with age assms show ?thesis by (auto simp add: apply_rules_def)
  next
    case (Some status)
    note status = this
    from assms age status obtain m1 where m1: "age_lt_18 age = Inr m1"
      by (auto simp: apply_rules_def split: sum.splits)
    let ?V = "violation_labels (tindex df) (violation_mask m1 (is_employed status))"
    show ?thesis
    proof (cases "?V = []")
      case True
      with assms age status m1 have "df' = df"
        by (simp add: apply_rules_def)
      with True age status m1 show ?thesis
        by (simp add: apply_rules_def)
    next
      case False
      let ?new = "loc_set (tindex df) ?V ''Unemployed'' status"
      from False assms age status m1
      have df': "df' = set_column df ''Employment_Status'' ?new"
        by (simp add: apply_rules_def Let_def)
      have ga: "get_column df' ''Age'' = Some age"
        by (simp add: df' get_column_set_column age)
      have gs: "get_column df' ''Employment_Status'' = Some ?new"
        by (simp add: df' get_column_set_column)
      have ti: "tindex df' = tindex df"
        by (simp add: df' tindex_set_column)
      have "violation_labels (tindex df) (violation_mask m1 (is_employed ?new)) = []"
      proof (cases "is_numeric_dtype status")
        case True
        then have "?new = status"
          by (cases status) (simp_all add: loc_set_def is_numeric_dtype_def)
        with True show ?thesis
          by (auto simp: violation_labels_Nil is_employed_not_text violation_mask_def)
      next
        case False
        then obtain ss where ObjCol: "status = ObjCol ss"
          by (cases status) (simp_all add: is_numeric_dtype_def)
        show ?thesis
          unfolding violation_labels_Nil
        proof (intro allI impI notI)
          fix i
          assume b: "i < length (tindex df) \<and> i < length (violation_mask m1 (is_employed ?new))"
            and v: "violation_mask m1 (is_employed ?new) ! i"
          from b have i: "i < length (tindex df)" "i < length m1" "i < length ss"
            by (auto simp: violation_mask_def is_employed_def loc_set_def ObjCol)
          from v i have m: "m1 ! i" and e: "is_employed ?new ! i"
            by (auto simp: violation_mask_def is_employed_def loc_set_def ObjCol)
          from e i have notin: "tindex df ! i \<notin> set ?V" and emp: "ss ! i = Some ''Employed''"
            by (auto simp: is_employed_def loc_set_def ObjCol split: if_splits)
          from i m emp have "violation_mask m1 (is_employed status) ! i"
            by (simp add: violation_mask_def is_employed_def ObjCol)
          moreover from i have "i < length (violation_mask m1 (is_employed status))"
            by (simp add: violation_mask_def is_employed_def ObjCol)
          ultimately have "tindex df ! i \<in> set ?V"
            using i(1) by (intro violation_labels_mem)
          with notin show False ..
        qed
      qed
      with ga gs ti m1 age status show ?thesis
        by (simp add: apply_rules_def)
    qed
  qed
qed

theorem apply_rules_idempotent_witness:
  "apply_rules survey_raw =
     Inr (survey_validated,
          ''Found 1 rule violation(s): Age < 18 and Employed. Correcting status to '' @
          quote ''Unemployed'' @ ''.'') \<and>
   apply_rules survey_validated = Inr (survey_validated, ''No rule violations found.'')"
proof -
  have h: "apply_rules survey_raw =
     Inr (survey_validated,
          ''Found 1 rule violation(s): Age < 18 and Employed. Correcting status to '' @
          quote ''Unemployed'' @ ''.'')"
    by code_simp
  show ?thesis
    using h apply_rules_idempotent [OF h] by (simp add: get_column_def survey_raw_def)
qed

text \<open>
  C5, as amended. For a well-formed table (rows identified by distinct labels) whose
  \<^verbatim>\<open>Age\<close> column holds numbers and whose \<^verbatim>\<open>Employment_Status\<close> column holds text,
  \<open>apply_rules\<close> returns a table with the same index and columns in which the status is
  \<^verbatim>\<open>Unemployed\<close> exactly in the rows that violate the rule and every other cell is as
  before, and it logs the number of rows corrected, or that there was none. When the
  status column is not text no row violates the rule; when either column is absent the
  table is returned as it is, with the line saying that the rule could not be applied.
\<close>

theorem apply_rules_corrects:
  "(wf_table df \<and> get_column df ''Age'' = Some age \<and> is_number age \<and>
    get_column df ''Employment_Status'' = Some (ObjCol ss) \<longrightarrow>
      (\<exists>df'. apply_rules df =
               Inr (df',
                    if filter (\<lambda>(u, s). spec_violation u s) (zip (ages_under_18 age) ss) = []
                    then ''No rule violations found.''
                    else ''Found '' @
                         show_nat (length (filter (\<lambda>(u, s). spec_violation u s)
                                             (zip (ages_under_18 age) ss))) @
                         '' rule violation(s): Age < 18 and Employed. Correcting status to '' @
                         quote ''Unemployed'' @ ''.'') \<and>
             tindex df' = tindex df \<and> column_names df' = column_names df \<and>
             (\<forall>c. c \<noteq> ''Employment_Status'' \<longrightarrow> get_column df' c = get_column df c) \<and>
             get_column df' ''Employment_Status'' =
               Some (ObjCol (map (\<lambda>(u, s). if spec_violation u s then Some ''Unemployed'' else s)
                               (zip (ages_under_18 age) ss))))) \<and>
   (get_column df ''Age'' = Some age \<and> is_number age \<and>
    get_column df ''Employment_Status'' = Some status \<and> is_numeric_dtype status \<longrightarrow>
      apply_rules df = Inr (df, ''No rule violations found.'')) \<and>
   (get_column df ''Age'' = None \<or> get_column df ''Employment_Status'' = None \<longrightarrow>
      apply_rules df =
        Inr (df, ''Could not apply age/employment rule: required columns not found.''))"
proof (intro conjI impI)
  assume a: "wf_table df \<and> get_column df ''Age'' = Some age \<and> is_number age \<and>
    get_column df ''Employment_Status'' = Some (ObjCol ss)"
  let ?new = "ObjCol (map (\<lambda>(u, s). if spec_violation u s then Some ''Unemployed'' else s)
                        (zip (ages_under_18 age) ss))"
  let ?df' = "set_column df ''Employment_Status'' ?new"
  from a have es: "''Employment_Status'' \<in> set (column_names df)"
    by (auto dest: get_column_names)
  from a have m1: "age_lt_18 age = Inr (ages_under_18 age)"
    by (simp add: age_lt_18_number)
  have "apply_rules df =
          Inr (?df',
               if filter (\<lambda>(u, s). spec_violation u s) (zip (ages_under_18 age) ss) = []
               then ''No rule violations found.''
               else ''Found '' @
                    show_nat (length (filter (\<lambda>(u, s). spec_violation u s)
                                        (zip (ages_under_18 age) ss))) @
                    '' rule violation(s): Age < 18 and Employed. Correcting status to '' @
                    quote ''Unemployed'' @ ''.'')"
    using a apply_rules_mask [of df age "ages_under_18 age" ss] m1 by simp
  moreover have "tindex ?df' = tindex df" by (simp add: tindex_set_column)
  moreover have "column_names ?df' = column_names df"
    using es by (simp add: column_names_set_column)
  moreover have "\<forall>c. c \<noteq> ''Employment_Status'' \<longrightarrow> get_column ?df' c = get_column df c"
    by (simp add: get_column_set_column)
  moreover have "get_column ?df' ''Employment_Status'' = Some ?new"
    by (simp add: get_column_set_column)
  ultimately show "\<exists>df'. apply_rules df =
               Inr (df',
                    if filter (\<lambda>(u, s). spec_violation u s) (zip (ages_under_18 age) ss) = []
                    then ''No rule violations found.''
                    else ''Found '' @
                         show_nat (length (filter (\<lambda>(u, s). spec_violation u s)
                                             (zip (ages_under_18 age) ss))) @
                         '' rule violation(s): Age < 18 and Employed. Correcting status to '' @
                         quote ''Unemployed'' @ ''.'') \<and>
             tindex df' = tindex df \<and> column_names df' = column_names df \<and>
             (\<forall>c. c \<noteq> ''Employment_Status'' \<longrightarrow> get_column df' c = get_column df c) \<and>
             get_column df' ''Employment_Status'' = Some ?new"
    by blast
next
  assume a: "get_column df ''Age'' = Some age \<and> is_number age \<and>
    get_column df ''Employment_Status'' = Some status \<and> is_numeric_dtype status"
  then have "violation_labels (tindex df) (violation_mask (ages_under_18 age) (is_employed status)) = []"
    by (auto simp: violation_labels_Nil is_employed_not_text violation_mask_def)
  with a show "apply_rules df = Inr (df, ''No rule violations found.'')"
    by (simp add: apply_rules_def age_lt_18_number)
next
  assume "get_column df ''Age'' = None \<or> get_column df ''Employment_Status'' = None"
  then show "apply_rules df =
        Inr (df, ''Could not apply age/employment rule: required columns not found.'')"
    by (auto simp: apply_rules_def split: option.splits)
qed

theorem apply_rules_corrects_witness:
  "wf_table survey_raw \<and>
   (\<exists>df'. apply_rules survey_raw =
            Inr (df', ''Found 1 rule violation(s): Age < 18 and Employed. Correcting status to '' @
                      quote ''Unemployed'' @ ''.'') \<and>
          tindex df' = [0, 1, 2, 3] \<and>
          get_column df' ''Employment_Status'' =
            Some (ObjCol [Some ''Unemployed'', Some ''Employed'', Some ''Unemployed'', Some ''Employed''])) \<and>
   apply_rules survey_coded_status = Inr (survey_coded_status, ''No rule violations found.'') \<and>
   apply_rules survey_no_status =
     Inr (survey_no_status, ''Could not apply age/employment rule: required columns not found.'')"
proof -
  let ?age = "FloatCol [Fin 16, Fin 25, Fin 40, NaN]"
  let ?ss = "[Some ''Employed'', Some ''Employed'', Some ''Unemployed'', Some ''Employed'']"
  have wf: "wf_table survey_raw" by code_simp
  have age: "get_column survey_raw ''Age'' = Some ?age"
    by (simp add: get_column_def survey_raw_def)
  have num: "is_number ?age" by (simp add: is_number_def)
  have st: "get_column survey_raw ''Employment_Status'' = Some (ObjCol ?ss)"
    by (simp add: get_column_def survey_raw_def)
  have u: "ages_under_18 ?age = [True, False, False, False]"
    by (simp add: ages_under_18_def float_under_18_def)
  have f: "filter (\<lambda>(u, s). spec_violation u s) (zip [True, False, False, False] ?ss) =
             [(True, Some ''Employed'')]"
    by (simp add: spec_violation_def)
  have n: "show_nat (length [(True, Some ''Employed'')]) = ''1''"
    by (simp add: show_nat.simps digit_char_def)
  have m: "map (\<lambda>(u, s). if spec_violation u s then Some ''Unemployed'' else s)
             (zip [True, False, False, False] ?ss) =
           [Some ''Unemployed'', Some ''Employed'', Some ''Unemployed'', Some ''Employed'']"
    by (simp add: spec_violation_def)
  have ti: "tindex survey_raw = [0, 1, 2, 3]" by (simp add: survey_raw_def)
  note c1 = apply_rules_corrects [of survey_raw ?age ?ss, THEN conjunct1, THEN mp,
      OF conjI [OF wf conjI [OF age conjI [OF num st]]]]
  then obtain df' where
    r: "apply_rules survey_raw =
          Inr (df',
               if filter (\<lambda>(u, s). spec_violation u s) (zip (ages_under_18 ?age) ?ss) = []
               then ''No rule violations found.''
               else ''Found '' @
                    show_nat (length (filter (\<lambda>(u, s). spec_violation u s)
                                        (zip (ages_under_18 ?age) ?ss))) @
                    '' rule violation(s): Age < 18 and Employed. Correcting status to '' @
                    quote ''Unemployed'' @ ''.'') \<and>
        tindex df' = tindex survey_raw \<and> column_names df' = column_names survey_raw \<and>
        (\<forall>c. c \<noteq> ''Employment_Status'' \<longrightarrow> get_column df' c = get_column survey_raw c) \<and>
        get_column df' ''Employment_Status'' =
          Some (ObjCol (map (\<lambda>(u, s). if spec_violation u s then Some ''Unemployed'' else s)
                  (zip (ages_under_18 ?age) ?ss)))" ..
  have r1: "apply_rules survey_raw =
            Inr (df', ''Found 1 rule violation(s): Age < 18 and Employed. Correcting status to '' @
                      quote ''Unemployed'' @ ''.'')"
    using r [THEN conjunct1] unfolding u f n by simp
  have r2: "tindex df' = [0, 1, 2, 3]"
    using r [THEN conjunct2, THEN conjunct1] unfolding ti .
  have r3: "get_column df' ''Employment_Status'' =
            Some (ObjCol [Some ''Unemployed'', Some ''Employed'', Some ''Unemployed'', Some ''Employed''])"
    using r [THEN conjunct2, THEN conjunct2, THEN conjunct2, THEN conjunct2] unfolding u m .
  have 1: "\<exists>df'. apply_rules survey_raw =
            Inr (df', ''Found 1 rule violation(s): Age < 18 and Employed. Correcting status to '' @
                      quote ''Unemployed'' @ ''.'') \<and>
          tindex df' = [0, 1, 2, 3] \<and>
          get_column df' ''Employment_Status'' =
            Some (ObjCol [Some ''Unemployed'', Some ''Employed'', Some ''Unemployed'', Some ''Employed''])"
    using r1 r2 r3 by (intro exI [of _ df'] conjI)
  have a2: "get_column survey_coded_status ''Age'' = Some (IntCol [16, 25])"
    by (simp add: get_column_def survey_coded_status_def)
  have n2: "is_number (IntCol [16, 25])" by (simp add: is_number_def)
  have s2: "get_column survey_coded_status ''Employment_Status'' = Some (IntCol [1, 2])"
    by (simp add: get_column_def survey_coded_status_def)
  have d2: "is_numeric_dtype (IntCol [1, 2])" by (simp add: is_numeric_dtype_def)
  note 2 = apply_rules_corrects [of survey_coded_status "IntCol [16, 25]" _ "IntCol [1, 2]",
      THEN conjunct2, THEN conjunct1, THEN mp, OF conjI [OF a2 conjI [OF n2 conjI [OF s2 d2]]]]
  have s3: "get_column survey_no_status ''Age'' = None \<or>
            get_column survey_no_status ''Employment_Status'' = None"
    by (simp add: get_column_def survey_no_status_def)
  note 3 = apply_rules_corrects [of survey_no_status, THEN conjunct2, THEN conjunct2, THEN mp, OF s3]
  from wf 1 2 3 show ?thesis by (intro conjI)
qed

text \<open>
  An \<^verbatim>\<open>Age\<close> column that holds text cannot be compared with 18: the stage raises.
\<close>

theorem apply_rules_text_age_counterexample:
  "apply_rules survey_text_age = Inl TypeError"
  by code_simp

section \<open>Imputation\<close>



lemma round_f64_not_NaN: "round_f64 x \<noteq> NaN"
  by (simp add: round_f64_def Let_def)










section \<open>Outlier capping\<close>

lemma flt_irrefl [simp]: "\<not> flt a a"
  by (cases a) simp_all

lemma flt_NaN [simp]: "\<not> flt a NaN"
  by (cases a) simp_all

lemma flt_not_NaN: "flt a b \<Longrightarrow> a \<noteq> NaN \<and> b \<noteq> NaN"
  by (cases a; cases b) simp_all

lemma to_float_FloatCol [simp]: "to_float (FloatCol xs) = xs"
  by (simp add: to_float_def)

lemma cap_clamp:
  "\<not> flt ub lb \<Longrightarrow> cap_upper ub (cap_lower lb xs) = map (clamp lb ub) xs"
  by (auto simp: cap_upper_def cap_lower_def clamp_def)

lemma no_outlier_clamp:
  assumes "filter (is_outlier lb ub) xs = []"
  shows "map (clamp lb ub) xs = xs"
proof -
  have "clamp lb ub v = v" if "v \<in> set xs" for v
  proof -
    from assms that have "\<not> is_outlier lb ub v"
      by (auto simp: filter_empty_conv)
    then show ?thesis by (auto simp: is_outlier_def clamp_def)
  qed
  then show ?thesis by (simp add: map_idI)
qed

lemma clamp_not_outlier: "\<not> flt ub lb \<Longrightarrow> \<not> is_outlier lb ub (clamp lb ub v)"
  by (auto simp: clamp_def is_outlier_def)

lemma outlier_loop_other:
  "c \<notin> set cols \<Longrightarrow> outlier_loop method cols (df, lines) = Inr (df', lines') \<Longrightarrow>
   get_column df' c = get_column df c"
proof (induction cols arbitrary: df lines)
  case Nil
  then show ?case by simp
next
  case (Cons col cols)
  then show ?case
    by (auto simp: get_column_set_column split: option.splits sum.splits prod.splits if_splits)
qed

lemma outlier_loop_selected:
  assumes "distinct cols" "c \<in> set cols" "get_column df c = Some xs" "is_numeric_dtype xs"
    "outlier_loop method cols (df, lines) = Inr (df', lines')"
  shows "\<exists>ys ls. outlier_step method c xs = Inr (ys, ls) \<and> get_column df' c = Some ys"
  using assms
proof (induction cols arbitrary: df lines)
  case Nil
  then show ?case by simp
next
  case (Cons col cols)
  show ?case
  proof (cases "col = c")
    case True
    with Cons.prems have nc: "c \<notin> set cols" by simp
    from True Cons.prems obtain ys ls where st: "outlier_step method c xs = Inr (ys, ls)"
      and l: "outlier_loop method cols (set_column df c ys, lines @ ls) = Inr (df', lines')"
      by (auto split: sum.splits)
    from outlier_loop_other [OF nc l] have "get_column df' c = Some ys"
      by (simp add: get_column_set_column)
    with st show ?thesis by blast
  next
    case False
    with Cons.prems have c: "c \<in> set cols" "distinct cols" by auto
    show ?thesis
    proof (cases "get_column df col")
      case None
      with Cons.prems have "outlier_loop method cols (df, lines) = Inr (df', lines')" by simp
      from Cons.IH [OF c(2) c(1) Cons.prems(3,4) this] show ?thesis .
    next
      case (Some cc)
      show ?thesis
      proof (cases "is_numeric_dtype cc")
        case False
        with Some Cons.prems have "outlier_loop method cols (df, lines) = Inr (df', lines')" by simp
        from Cons.IH [OF c(2) c(1) Cons.prems(3,4) this] show ?thesis .
      next
        case True
        with Some Cons.prems obtain zs ls where st: "outlier_step method col cc = Inr (zs, ls)"
          and l: "outlier_loop method cols (set_column df col zs, lines @ ls) = Inr (df', lines')"
          by (auto split: sum.splits)
        have "get_column (set_column df col zs) c = Some xs"
          using \<open>col \<noteq> c\<close> Cons.prems(3) by (simp add: get_column_set_column)
        from Cons.IH [OF c(2) c(1) this Cons.prems(4) l] show ?thesis .
      qed
    qed
  qed
qed

lemma handle_outliers_single:
  assumes "get_column df c = Some xs" "is_numeric_dtype xs"
    "outlier_step method c xs = Inr (ys, ls)"
  shows "handle_outliers df [c] method =
           Inr (set_column df c ys,
                join [CHR 0x0A]
                  (if ls = [] then [''No numeric columns selected for outlier handling.''] else ls))"
proof -
  from assms(1) have "c \<in> set (column_names df)" by (rule get_column_names)
  with assms show ?thesis
    by (simp add: handle_outliers_def)
qed

text \<open>Missing cells.\<close>

lemma cast_int_not_NaN [simp]: "cast_int i \<noteq> NaN"
  by (simp add: cast_int_def round_f64_not_NaN)

lemma present_to_float:
  "is_numeric_dtype xs \<Longrightarrow> present xs = map (\<lambda>v. v \<noteq> NaN) (to_float xs)"
  by (cases xs)
     (simp_all add: present_def to_float_def is_numeric_dtype_def column_length_def
        cast_bool_def o_def map_replicate_const)

lemma cap_present:
  "map (\<lambda>v. v \<noteq> NaN) (cap_upper ub (cap_lower lb xs)) = map (\<lambda>v. v \<noteq> NaN) xs"
  by (auto simp: cap_upper_def cap_lower_def dest: flt_not_NaN)

lemma present_outlier_step:
  assumes "outlier_step method col xs = Inr (ys, ls)"
  shows "present ys = present xs"
proof -
  from assms obtain lb ub where b: "iqr_bounds xs = Inr (lb, ub)"
    and ys: "ys = (if filter (is_outlier lb ub) (to_float xs) = [] then xs
               else FloatCol (cap_upper ub (cap_lower lb (to_float xs))))"
    by (rule outlier_step_cases)
  from b have "is_numeric_dtype xs" by (rule iqr_bounds_numeric)
  then have "present xs = map (\<lambda>v. v \<noteq> NaN) (to_float xs)" by (rule present_to_float)
  then show ?thesis
    by (simp add: ys cap_present) (simp add: present_def cap_present)
qed

lemma outlier_loop_present:
  assumes "get_column df c = Some col"
    "outlier_loop method cols (df, lines) = Inr (df', lines')"
  shows "\<exists>col'. get_column df' c = Some col' \<and> present col' = present col"
  using assms
proof (induction cols arbitrary: df lines col)
  case Nil
  then show ?case by simp
next
  case (Cons k cols)
  show ?case
  proof (cases "get_column df k")
    case None
    with Cons.prems have "outlier_loop method cols (df, lines) = Inr (df', lines')" by simp
    from Cons.IH [OF Cons.prems(1) this] show ?thesis .
  next
    case (Some cc)
    show ?thesis
    proof (cases "is_numeric_dtype cc")
      case False
      with Some Cons.prems have "outlier_loop method cols (df, lines) = Inr (df', lines')" by simp
      from Cons.IH [OF Cons.prems(1) this] show ?thesis .
    next
      case True
      with Some Cons.prems obtain zs ls where st: "outlier_step method k cc = Inr (zs, ls)"
        and l: "outlier_loop method cols (set_column df k zs, lines @ ls) = Inr (df', lines')"
        by (auto split: sum.splits)
      show ?thesis
      proof (cases "k = c")
        case True
        with Some Cons.prems(1) have "cc = col" by simp
        have g: "get_column (set_column df k zs) c = Some zs"
          using True by (simp add: get_column_set_column)
        from Cons.IH [OF g l] obtain col' where
          "get_column df' c = Some col'" "present col' = present zs" by blast
        with present_outlier_step [OF st] \<open>cc = col\<close> show ?thesis by simp
      next
        case False
        with Cons.prems(1) have g: "get_column (set_column df k zs) c = Some col"
          by (simp add: get_column_set_column)
        from Cons.IH [OF g l] show ?thesis .
      qed
    qed
  qed
qed

text \<open>Dependence on the non-missing values only.\<close>

lemma observed_observed [simp]: "observed (observed xs) = observed xs"
  by (simp add: observed_def)

lemma not_outlier_NaN [simp]: "\<not> is_outlier lb ub NaN"
  by (cases lb; cases ub) (simp_all add: is_outlier_def)

lemma filter_outlier_observed:
  "filter (is_outlier lb ub) xs = filter (is_outlier lb ub) (observed xs)"
  by (induction xs) (auto simp: observed_def)

lemma observed_cap:
  "observed (cap_upper ub (cap_lower lb xs)) = cap_upper ub (cap_lower lb (observed xs))"
  by (induction xs) (auto simp: observed_def cap_upper_def cap_lower_def dest: flt_not_NaN)

lemma iqr_bounds_observed:
  "observed xs = observed ys \<Longrightarrow> iqr_bounds (FloatCol xs) = iqr_bounds (FloatCol ys)"
  by (simp add: iqr_bounds_def quantile_def quantile_float_def)

lemma same_values_refl: "same_values a a"
  by (cases a) (simp_all add: same_values_def)

lemma same_values_dtype: "same_values a b \<Longrightarrow> is_numeric_dtype a = is_numeric_dtype b"
  by (cases a; cases b) (simp_all add: same_values_def is_numeric_dtype_def)

lemma outlier_step_float:
  assumes "observed xs = observed ys"
  shows "rel_sum (=) (\<lambda>(a, l1) (b, l2). l1 = l2 \<and> same_values a b)
           (outlier_step method col (FloatCol xs)) (outlier_step method col (FloatCol ys))"
proof (cases "iqr_bounds (FloatCol xs)")
  case (Inl e)
  moreover from Inl iqr_bounds_observed [OF assms] have "iqr_bounds (FloatCol ys) = Inl e"
    by simp
  ultimately show ?thesis
    by (simp add: outlier_step_def)
next
  case (Inr b)
  obtain lb ub where b: "b = (lb, ub)" by (cases b)
  from Inr b iqr_bounds_observed [OF assms] have bys: "iqr_bounds (FloatCol ys) = Inr (lb, ub)"
    by simp
  have f: "filter (is_outlier lb ub) xs = filter (is_outlier lb ub) ys"
    using assms filter_outlier_observed [of lb ub xs] filter_outlier_observed [of lb ub ys]
    by simp
  have c: "observed (cap_upper ub (cap_lower lb xs)) = observed (cap_upper ub (cap_lower lb ys))"
    using assms by (simp add: observed_cap)
  from Inr b bys f c assms show ?thesis
    by (simp add: outlier_step_def same_values_def)
qed

lemma outlier_step_observed:
  assumes "same_values xs ys"
  shows "rel_sum (=) (\<lambda>(a, l1) (b, l2). l1 = l2 \<and> same_values a b)
           (outlier_step method col xs) (outlier_step method col ys)"
proof (cases xs)
  case (FloatCol fs)
  with assms obtain gs where "ys = FloatCol gs" "observed fs = observed gs"
    by (cases ys) (simp_all add: same_values_def)
  with FloatCol outlier_step_float [of fs gs "method" "col"] show ?thesis by simp
next
  case (IntCol ns)
  with assms have "ys = xs" by (cases ys) (simp_all add: same_values_def)
  then show ?thesis
    by (cases "outlier_step method col xs") (auto simp: same_values_refl)
next
  case (BoolCol bs)
  with assms have "ys = xs" by (cases ys) (simp_all add: same_values_def)
  then show ?thesis
    by (cases "outlier_step method col xs") (auto simp: same_values_refl)
next
  case (ObjCol ss)
  with assms obtain ts where "ys = ObjCol ts" by (cases ys) (simp_all add: same_values_def)
  with ObjCol show ?thesis
    by (simp add: outlier_step_def iqr_bounds_def quantile_def)
qed

lemma same_observed_get:
  assumes "same_observed d1 d2"
  shows "rel_option same_values (get_column d1 c) (get_column d2 c)"
proof -
  have "rel_option same_values (map_of k1 c) (map_of k2 c)"
    if "list_all2 (\<lambda>(c1, a) (c2, b). c1 = c2 \<and> same_values a b) k1 k2" for k1 k2
    using that by (induction rule: list_all2_induct) auto
  with assms show ?thesis by (simp add: same_observed_def get_column_def)
qed

lemma same_observed_names:
  assumes "same_observed d1 d2"
  shows "column_names d1 = column_names d2"
proof -
  have "map fst k1 = map fst k2"
    if "list_all2 (\<lambda>(c1, a) (c2, b). c1 = c2 \<and> same_values a b) k1 k2" for k1 k2
    using that by (induction rule: list_all2_induct) auto
  with assms show ?thesis by (simp add: same_observed_def column_names_def)
qed

lemma same_observed_set:
  assumes "same_observed d1 d2" "same_values a b"
  shows "same_observed (set_column d1 c a) (set_column d2 c b)"
proof -
  have "list_all2 (\<lambda>(c1, a) (c2, b). c1 = c2 \<and> same_values a b) (set_in c a k1) (set_in c b k2)"
    if "list_all2 (\<lambda>(c1, a) (c2, b). c1 = c2 \<and> same_values a b) k1 k2" for k1 k2
    using that assms(2) by (induction rule: list_all2_induct) auto
  with assms show ?thesis by (simp add: same_observed_def set_column_def)
qed

lemma outlier_loop_observed:
  assumes "same_observed d1 d2"
  shows "rel_sum (=) (\<lambda>(a, l1) (b, l2). l1 = l2 \<and> same_observed a b)
           (outlier_loop method cols (d1, lines)) (outlier_loop method cols (d2, lines))"
  using assms
proof (induction cols arbitrary: d1 d2 lines)
  case Nil
  then show ?case by simp
next
  case (Cons col cols)
  from same_observed_get [OF Cons.prems, of col]
  consider "get_column d1 col = None" "get_column d2 col = None"
    | xs ys where "get_column d1 col = Some xs" "get_column d2 col = Some ys" "same_values xs ys"
    by (cases "get_column d1 col"; cases "get_column d2 col") auto
  then show ?case
  proof cases
    case 1
    with Cons.IH [OF Cons.prems] show ?thesis by simp
  next
    case 2
    note dt = same_values_dtype [OF 2(3)]
    show ?thesis
    proof (cases "is_numeric_dtype xs")
      case False
      with dt 2 Cons.IH [OF Cons.prems] show ?thesis by simp
    next
      case True
      from outlier_step_observed [OF 2(3), of "method" "col"]
      consider e where "outlier_step method col xs = Inl e" "outlier_step method col ys = Inl e"
        | xs' ys' ls where "outlier_step method col xs = Inr (xs', ls)"
            "outlier_step method col ys = Inr (ys', ls)" "same_values xs' ys'"
        by (cases "outlier_step method col xs"; cases "outlier_step method col ys") auto
      then show ?thesis
      proof cases
        case 1
        with 2 True dt show ?thesis by simp
      next
        case b: 2
        from Cons.prems b(3)
        have "same_observed (set_column d1 col xs') (set_column d2 col ys')"
          by (rule same_observed_set)
        from Cons.IH [OF this, of "lines @ ls"] 2 True dt b show ?thesis by simp
      qed
    qed
  qed
qed

lemma handle_outliers_observed:
  assumes "same_observed d1 d2"
  shows "rel_sum (=) (\<lambda>(a, m1) (b, m2). m1 = m2 \<and> same_observed a b)
           (handle_outliers d1 columns method) (handle_outliers d2 columns method)"
proof -
  let ?cols = "filter (\<lambda>col. col \<in> set (column_names d2)) columns"
  from outlier_loop_observed [OF assms, of "method" ?cols "[]"] same_observed_names [OF assms]
  show ?thesis
    by (cases "outlier_loop method ?cols (d1, [])"; cases "outlier_loop method ?cols (d2, [])")
       (auto simp: handle_outliers_def)
qed

section \<open>The claims about outlier capping\<close>

lemma skewed_step:
  "outlier_step ''IQR'' ''Score'' (IntCol [0, 100, 100, 100]) =
     Inr (FloatCol [Fin (75 / 2), Fin 100, Fin 100, Fin 100],
          [''Found 1 outlier(s) in '' @ quote ''Score'' @ '' using IQR.'',
           ''Capped outliers in '' @ quote ''Score'' @ '' at lower:37.50 and upper:137.50.''])"
  by code_simp

text \<open>
  C3, as amended. Take a selection without repetition on which the stage returns, and a
  selected column for which the bounds computed from the column as it came in are not
  crossed (\<^verbatim>\<open>lower_bound\<close> is not above \<^verbatim>\<open>upper_bound\<close>). If the column has no outlier
  it comes out as it was; otherwise it comes out as a float64 column, each cell being the
  cell converted to float64 and moved to the nearest point of the interval between the
  bounds. Either way no cell of the column that comes out is an outlier for these bounds.
  Nothing is said about a second pass, which computes its bounds afresh from the capped
  column.
\<close>

theorem handle_outliers_clamps:
  assumes "distinct columns" "c \<in> set columns" "get_column df c = Some col"
    "iqr_bounds col = Inr (lb, ub)" "\<not> flt ub lb"
    "handle_outliers df columns method = Inr (df', msg)"
  shows "\<exists>col'. get_column df' c = Some col' \<and>
           col' = (if filter (is_outlier lb ub) (to_float col) = [] then col
                   else FloatCol (map (clamp lb ub) (to_float col))) \<and>
           to_float col' = map (clamp lb ub) (to_float col) \<and>
           filter (is_outlier lb ub) (to_float col') = []"
proof -
  let ?cols = "filter (\<lambda>col. col \<in> set (column_names df)) columns"
  from assms(6) obtain lines where l: "outlier_loop method ?cols (df, []) = Inr (df', lines)"
    by (rule handle_outliers_loop)
  from assms have c: "c \<in> set ?cols" by (auto dest: get_column_names)
  from assms have d: "distinct ?cols" by simp
  from assms(4) have n: "is_numeric_dtype col" by (rule iqr_bounds_numeric)
  from outlier_loop_selected [OF d c assms(3) n l] obtain ys ls where
    st: "outlier_step method c col = Inr (ys, ls)" and g: "get_column df' c = Some ys"
    by blast
  from st assms(4)
  have ys: "ys = (if filter (is_outlier lb ub) (to_float col) = [] then col
                  else FloatCol (cap_upper ub (cap_lower lb (to_float col))))"
    by (auto elim!: outlier_step_cases)
  then have 1: "ys = (if filter (is_outlier lb ub) (to_float col) = [] then col
                      else FloatCol (map (clamp lb ub) (to_float col)))"
    using assms(5) by (simp add: cap_clamp)
  then have 2: "to_float ys = map (clamp lb ub) (to_float col)"
    by (simp add: no_outlier_clamp)
  have 3: "filter (is_outlier lb ub) (to_float ys) = []"
    unfolding 2 using assms(5) by (simp add: filter_empty_conv clamp_not_outlier)
  from g 1 2 3 show ?thesis by blast
qed

theorem handle_outliers_clamps_witness:
  "iqr_bounds (IntCol [0, 100, 100, 100]) = Inr (Fin (75 / 2), Fin (275 / 2)) \<and>
   handle_outliers skewed [''Score''] ''IQR'' =
     Inr (skewed_capped,
          ''Found 1 outlier(s) in '' @ quote ''Score'' @ '' using IQR.'' @ [CHR 0x0A] @
          ''Capped outliers in '' @ quote ''Score'' @ '' at lower:37.50 and upper:137.50.'') \<and>
   (\<exists>col'. get_column skewed_capped ''Score'' = Some col' \<and>
      col' = FloatCol [Fin (75 / 2), Fin 100, Fin 100, Fin 100] \<and>
      filter (is_outlier (Fin (75 / 2)) (Fin (275 / 2))) (to_float col') = [])"
proof -
  let ?col = "IntCol [0, 100, 100, 100]"
  have b: "iqr_bounds ?col = Inr (Fin (75 / 2), Fin (275 / 2))"
    by code_simp
  note st = skewed_step
  have g: "get_column skewed ''Score'' = Some ?col"
    by (simp add: get_column_def skewed_def)
  have n: "is_numeric_dtype ?col" by (simp add: is_numeric_dtype_def)
  have h: "handle_outliers skewed [''Score''] ''IQR'' =
     Inr (skewed_capped,
          ''Found 1 outlier(s) in '' @ quote ''Score'' @ '' using IQR.'' @ [CHR 0x0A] @
          ''Capped outliers in '' @ quote ''Score'' @ '' at lower:37.50 and upper:137.50.'')"
    unfolding handle_outliers_single [OF g n st]
    by (simp add: skewed_def skewed_capped_def set_column_def)
  have d: "distinct [''Score'']" "''Score'' \<in> set [''Score'']" by simp_all
  have o: "\<not> flt (Fin (275 / 2)) (Fin (75 / 2))" by simp
  have tf: "to_float ?col = [Fin 0, Fin 100, Fin 100, Fin 100]" by code_simp
  from handle_outliers_clamps [OF d g b o h]
  have "\<exists>col'. get_column skewed_capped ''Score'' = Some col' \<and>
      col' = FloatCol [Fin (75 / 2), Fin 100, Fin 100, Fin 100] \<and>
      filter (is_outlier (Fin (75 / 2)) (Fin (275 / 2))) (to_float col') = []"
    by (simp add: tf is_outlier_def clamp_def)
  with b h show ?thesis by (intro conjI)
qed

text \<open>
  Capping is not idempotent. One pass over 0, 100, 100, 100 lifts the 0 to the lower bound
  37.5; the quartiles of the capped column are 84.375 and 100, its lower bound is 60.9375,
  and a second pass finds the 37.5 below it and changes the table again.
\<close>

theorem handle_outliers_twice_counterexample:
  "map_sum id fst (handle_outliers skewed [''Score''] ''IQR'') = Inr skewed_capped \<and>
   map_sum id fst (handle_outliers skewed_capped [''Score''] ''IQR'') = Inr skewed_recapped \<and>
   skewed_recapped \<noteq> skewed_capped"
proof (intro conjI)
  let ?c1 = "IntCol [0, 100, 100, 100]"
  let ?c2 = "FloatCol [Fin (75 / 2), Fin 100, Fin 100, Fin 100]"
  let ?c3 = "FloatCol [Fin (975 / 16), Fin 100, Fin 100, Fin 100]"
  have g1: "get_column skewed ''Score'' = Some ?c1"
    by (simp add: get_column_def skewed_def)
  have n1: "is_numeric_dtype ?c1" by (simp add: is_numeric_dtype_def)
  note s1 = skewed_step
  show "map_sum id fst (handle_outliers skewed [''Score''] ''IQR'') = Inr skewed_capped"
    unfolding handle_outliers_single [OF g1 n1 s1]
    by (simp add: skewed_def skewed_capped_def set_column_def)
  have g2: "get_column skewed_capped ''Score'' = Some ?c2"
    by (simp add: get_column_def skewed_capped_def)
  have n2: "is_numeric_dtype ?c2" by (simp add: is_numeric_dtype_def)
  have s2: "outlier_step ''IQR'' ''Score'' ?c2 =
              Inr (?c3,
                   [''Found 1 outlier(s) in '' @ quote ''Score'' @ '' using IQR.'',
                    ''Capped outliers in '' @ quote ''Score'' @ '' at lower:60.94 and upper:123.44.''])"
    by code_simp
  show "map_sum id fst (handle_outliers skewed_capped [''Score''] ''IQR'') = Inr skewed_recapped"
    unfolding handle_outliers_single [OF g2 n2 s2]
    by (simp add: skewed_capped_def skewed_recapped_def set_column_def)
  show "skewed_recapped \<noteq> skewed_capped"
    by (simp add: skewed_capped_def skewed_recapped_def)
qed

text \<open>
  C10. Where the outlier stage returns, every column of its table has its missing cells
  where the column of the input has them, and no other, whatever the selection; a missing
  cell is never an outlier; the bounds of a float column are those of its non-missing
  values alone; and for any two tables whose columns hold the same non-missing values the
  stage raises the same error or returns the same log (with its outlier counts and bounds)
  and tables that again hold the same non-missing values.
\<close>

theorem handle_outliers_missing_cells:
  "(handle_outliers df columns method = Inr (df', msg) \<and> get_column df c = Some col \<longrightarrow>
      (\<exists>col'. get_column df' c = Some col' \<and> present col' = present col)) \<and>
   \<not> is_outlier lb ub NaN \<and>
   iqr_bounds (FloatCol xs) = iqr_bounds (FloatCol (observed xs)) \<and>
   (same_observed df df2 \<longrightarrow>
      rel_sum (=) (\<lambda>(d1, m1) (d2, m2). m1 = m2 \<and> same_observed d1 d2)
        (handle_outliers df columns method) (handle_outliers df2 columns method))"
proof (intro conjI impI)
  assume a: "handle_outliers df columns method = Inr (df', msg) \<and> get_column df c = Some col"
  then obtain lines where
    "outlier_loop method (filter (\<lambda>col. col \<in> set (column_names df)) columns) (df, []) =
       Inr (df', lines)"
    by (auto elim: handle_outliers_loop)
  with a show "\<exists>col'. get_column df' c = Some col' \<and> present col' = present col"
    by (intro outlier_loop_present) auto
next
  show "\<not> is_outlier lb ub NaN" by (rule not_outlier_NaN)
next
  show "iqr_bounds (FloatCol xs) = iqr_bounds (FloatCol (observed xs))"
    by (rule iqr_bounds_observed) simp
next
  assume "same_observed df df2"
  then show "rel_sum (=) (\<lambda>(d1, m1) (d2, m2). m1 = m2 \<and> same_observed d1 d2)
        (handle_outliers df columns method) (handle_outliers df2 columns method)"
    by (rule handle_outliers_observed)
qed

theorem handle_outliers_missing_cells_witness:
  "same_observed scores_gaps scores \<and>
   handle_outliers scores_gaps [''Score''] ''IQR'' =
     Inr (set_column scores_gaps ''Score'' (FloatCol [Fin 1, NaN, Fin 2, Fin 3, Fin 4, NaN, Fin 7]),
          ''Found 1 outlier(s) in '' @ quote ''Score'' @ '' using IQR.'' @ [CHR 0x0A] @
          ''Capped outliers in '' @ quote ''Score'' @ '' at lower:-1.00 and upper:7.00.'') \<and>
   (\<exists>col'. get_column (set_column scores_gaps ''Score''
                           (FloatCol [Fin 1, NaN, Fin 2, Fin 3, Fin 4, NaN, Fin 7])) ''Score'' = Some col' \<and>
      present col' = [True, False, True, True, True, False, True]) \<and>
   (\<exists>d2. handle_outliers scores [''Score''] ''IQR'' =
           Inr (d2, ''Found 1 outlier(s) in '' @ quote ''Score'' @ '' using IQR.'' @ [CHR 0x0A] @
                    ''Capped outliers in '' @ quote ''Score'' @ '' at lower:-1.00 and upper:7.00.'') \<and>
         same_observed (set_column scores_gaps ''Score''
                          (FloatCol [Fin 1, NaN, Fin 2, Fin 3, Fin 4, NaN, Fin 7])) d2)"
proof -
  let ?col = "FloatCol [Fin 1, NaN, Fin 2, Fin 3, Fin 4, NaN, Fin 100]"
  let ?out = "set_column scores_gaps ''Score'' (FloatCol [Fin 1, NaN, Fin 2, Fin 3, Fin 4, NaN, Fin 7])"
  let ?msg = "''Found 1 outlier(s) in '' @ quote ''Score'' @ '' using IQR.'' @ [CHR 0x0A] @
              ''Capped outliers in '' @ quote ''Score'' @ '' at lower:-1.00 and upper:7.00.''"
  have so: "same_observed scores_gaps scores"
    by (simp add: same_observed_def same_values_def scores_gaps_def scores_def observed_def)
  have g: "get_column scores_gaps ''Score'' = Some ?col"
    by (simp add: get_column_def scores_gaps_def)
  have n: "is_numeric_dtype ?col" by (simp add: is_numeric_dtype_def)
  have st: "outlier_step ''IQR'' ''Score'' ?col =
              Inr (FloatCol [Fin 1, NaN, Fin 2, Fin 3, Fin 4, NaN, Fin 7],
                   [''Found 1 outlier(s) in '' @ quote ''Score'' @ '' using IQR.'',
                    ''Capped outliers in '' @ quote ''Score'' @ '' at lower:-1.00 and upper:7.00.''])"
    by code_simp
  have h: "handle_outliers scores_gaps [''Score''] ''IQR'' = Inr (?out, ?msg)"
    unfolding handle_outliers_single [OF g n st] by simp
  note t = handle_outliers_missing_cells [of scores_gaps "[''Score'']" "''IQR''" ?out ?msg
      "''Score''" ?col _ _ _ scores]
  from t [THEN conjunct1, THEN mp, OF conjI [OF h g]]
  have 1: "\<exists>col'. get_column ?out ''Score'' = Some col' \<and>
             present col' = [True, False, True, True, True, False, True]"
    by (simp add: present_def)
  from t [THEN conjunct2, THEN conjunct2, THEN conjunct2, THEN mp, OF so]
  have 2: "\<exists>d2. handle_outliers scores [''Score''] ''IQR'' = Inr (d2, ?msg) \<and> same_observed ?out d2"
    unfolding h by (cases "handle_outliers scores [''Score''] ''IQR''") auto
  from so h 1 2 show ?thesis by (intro conjI)
qed

section \<open>The claim about selections that name an absent column\<close>

text \<open>
  C1. The claim: under an absent weight column, an empty or invalid column selection, or
  a selection that names non-numeric or missing columns, no stage raises; each returns an
  unchanged or empty result and a log line. The imputer does not keep to it: it indexes
  the table by the whole selection before it filters anything, so a selection naming a
  column the table lacks raises \<^verbatim>\<open>KeyError\<close>, whatever the method. The outlier stage, given
  the same table and the same selection, drops the absent name and goes on.
\<close>

theorem impute_absent_column_raises:
  "impute_missing_values np_sum knn survey_raw [''Age'', ''Income''] ''Median'' = Inl KeyError \<and>
   handle_outliers survey_raw [''Age'', ''Income''] ''IQR'' =
     Inr (survey_raw, ''No outliers detected in '' @ quote ''Age'' @ '' using IQR.'')"
proof
  show "impute_missing_values np_sum knn survey_raw [''Age'', ''Income''] ''Median'' = Inl KeyError"
    by (simp add: impute_missing_values_def column_names_def survey_raw_def)
  show "handle_outliers survey_raw [''Age'', ''Income''] ''IQR'' =
     Inr (survey_raw, ''No outliers detected in '' @ quote ''Age'' @ '' using IQR.'')"
    by code_simp
qed

section \<open>Weighted estimates\<close>

lemma dropna_Nil:
  assumes "is_numeric_dtype xs"
  shows "dropna xs ws = [] \<longleftrightarrow> (\<forall>i. \<not> (has_value xs i \<and> has_value ws i))"
proof -
  define W where "W = (case ws of ObjCol ts \<Rightarrow> map (\<lambda>_. NaN) ts | _ \<Rightarrow> to_float ws)"
  define P where "P = map (\<lambda>(a, b). a \<and> b) (zip (present xs) (present ws))"
  define V where "V = zip (to_float xs) W"
  have lx: "length (to_float xs) = column_length xs" using assms by (rule length_to_float)
  have lW: "length W = column_length ws"
    by (cases ws) (simp_all add: W_def to_float_def column_length_def)
  have lP: "length P = min (column_length xs) (column_length ws)"
    by (simp add: P_def length_present)
  have lV: "length V = min (column_length xs) (column_length ws)"
    by (simp add: V_def lx lW)
  have Pn: "P ! i = (present xs ! i \<and> present ws ! i)"
    if "i < column_length xs" "i < column_length ws" for i
    using that by (simp add: P_def length_present)
  have "dropna xs ws = [] \<longleftrightarrow> (\<forall>p\<in>set (zip P V). \<not> fst p)"
    unfolding dropna_def P_def V_def W_def by (auto simp: filter_empty_conv)
  also have "\<dots> \<longleftrightarrow> (\<forall>i < length (zip P V). \<not> fst (zip P V ! i))"
    by (simp add: all_set_conv_all_nth)
  also have "\<dots> \<longleftrightarrow> (\<forall>i. i < column_length xs \<and> i < column_length ws \<longrightarrow> \<not> P ! i)"
    using lP lV by auto
  also have "\<dots> \<longleftrightarrow> (\<forall>i. \<not> (has_value xs i \<and> has_value ws i))"
    using Pn by (auto simp: has_value_def)
  finally show ?thesis .
qed

lemma column_estimate_empty:
  assumes "is_numeric_dtype xs" "\<forall>i. \<not> (has_value xs i \<and> has_value weights i)"
  shows "column_estimate pd_sum np_sum weights xs = Inr None"
  using assms by (simp add: column_estimate_def dropna_Nil)

lemma estimate_loop_nothing:
  assumes "get_column df w = Some weights"
    and "\<forall>c\<in>set cols. c \<noteq> w \<longrightarrow>
           (\<exists>xs. get_column df c = Some xs \<and> column_estimate pd_sum np_sum weights xs = Inr None)"
  shows "estimate_loop pd_sum np_sum df w cols summary = Inr summary"
  using assms by (induction cols) auto

lemma calculate_estimates_nothing:
  assumes w: "get_column df w = Some weights"
    and e: "\<forall>c xs i. c \<noteq> w \<and> get_column df c = Some xs \<and> is_number xs \<longrightarrow>
              \<not> (has_value xs i \<and> has_value weights i)"
  shows "calculate_estimates pd_sum np_sum df w =
           Inr ([], ''No valid numeric columns to generate estimates for.'')"
proof -
  have "\<exists>xs. get_column df c = Some xs \<and> column_estimate pd_sum np_sum weights xs = Inr None"
    if "c \<in> set (select_numeric df (column_names df))" "c \<noteq> w" for c
  proof -
    from that obtain xs where xs: "get_column df c = Some xs" "is_number xs"
      by (auto simp: select_numeric_set)
    with e that have "\<forall>i. \<not> (has_value xs i \<and> has_value weights i)" by blast
    with xs show ?thesis by (simp add: column_estimate_empty is_number_numeric)
  qed
  then have "estimate_loop pd_sum np_sum df w (select_numeric df (column_names df)) [] = Inr []"
    using w by (intro estimate_loop_nothing) auto
  moreover from w have "w \<in> set (column_names df)" by (rule get_column_names)
  ultimately show ?thesis by (simp add: calculate_estimates_def)
qed








section \<open>The claims about the estimates\<close>

text \<open>
  C6. When the weight column is absent the estimator returns no estimate and the line
  saying that the column was not found; when it is present but no other numeric column
  has a row in which both its cell and the weight are present, it returns no estimate and
  the line saying that there are no valid columns.
\<close>

theorem calculate_estimates_empty:
  "(weight_column \<notin> set (column_names df) \<longrightarrow>
      calculate_estimates pd_sum np_sum df weight_column =
        Inr ([], ''Weight column '' @ quote weight_column @ '' not found in the dataframe.'')) \<and>
   (get_column df weight_column = Some weights \<and>
    (\<forall>c xs i. c \<noteq> weight_column \<and> get_column df c = Some xs \<and> is_number xs \<longrightarrow>
       \<not> (has_value xs i \<and> has_value weights i)) \<longrightarrow>
      calculate_estimates pd_sum np_sum df weight_column =
        Inr ([], ''No valid numeric columns to generate estimates for.''))"
proof (intro conjI impI)
  assume "weight_column \<notin> set (column_names df)"
  then show "calculate_estimates pd_sum np_sum df weight_column =
        Inr ([], ''Weight column '' @ quote weight_column @ '' not found in the dataframe.'')"
    by (simp add: calculate_estimates_def)
next
  assume "get_column df weight_column = Some weights \<and>
    (\<forall>c xs i. c \<noteq> weight_column \<and> get_column df c = Some xs \<and> is_number xs \<longrightarrow>
       \<not> (has_value xs i \<and> has_value weights i))"
  then show "calculate_estimates pd_sum np_sum df weight_column =
        Inr ([], ''No valid numeric columns to generate estimates for.'')"
    by (intro calculate_estimates_nothing) blast+
qed

theorem calculate_estimates_empty_witness:
  "calculate_estimates seq_sum seq_sum survey_raw ''Weight'' =
     Inr ([], ''Weight column '' @ quote ''Weight'' @ '' not found in the dataframe.'') \<and>
   calculate_estimates seq_sum seq_sum survey_disjoint ''Design_Weight'' =
     Inr ([], ''No valid numeric columns to generate estimates for.'')"
proof
  have a: "''Weight'' \<notin> set (column_names survey_raw)"
    by (simp add: column_names_def survey_raw_def)
  from calculate_estimates_empty [of "''Weight''" survey_raw seq_sum seq_sum, THEN conjunct1, THEN mp, OF a]
  show "calculate_estimates seq_sum seq_sum survey_raw ''Weight'' =
     Inr ([], ''Weight column '' @ quote ''Weight'' @ '' not found in the dataframe.'')" .
  have w: "get_column survey_disjoint ''Design_Weight'' = Some (FloatCol [NaN, Fin 2])"
    by (simp add: get_column_def survey_disjoint_def)
  have e: "\<forall>c xs i. c \<noteq> ''Design_Weight'' \<and> get_column survey_disjoint c = Some xs \<and> is_number xs \<longrightarrow>
       \<not> (has_value xs i \<and> has_value (FloatCol [NaN, Fin 2]) i)"
    by (auto simp: get_column_def survey_disjoint_def has_value_def present_def column_length_def
          nth_Cons' split: if_splits)
  from calculate_estimates_empty [of "''Design_Weight''" survey_disjoint seq_sum seq_sum "FloatCol [NaN, Fin 2]",
      THEN conjunct2, THEN mp, OF conjI [OF w e]]
  show "calculate_estimates seq_sum seq_sum survey_disjoint ''Design_Weight'' =
     Inr ([], ''No valid numeric columns to generate estimates for.'')" .
qed




section \<open>The claim about the orchestrator\<close>

text \<open>The stages on the survey of the examples, one after the other.\<close>

lemma survey_impute:
  "impute_missing_values seq_sum (simple_imputer ma_median) survey_raw [''Age''] ''Median'' =
     Inr (survey_imputed,
          ''Imputed missing values in columns '' @ repr_list [''Age''] @ '' using Median.'')"
  by code_simp

lemma survey_outliers:
  "handle_outliers survey_imputed [''Age''] ''IQR'' =
     Inr (survey_capped,
          ''Found 1 outlier(s) in '' @ quote ''Age'' @ '' using IQR.'' @ [CHR 0x0A] @
          ''Capped outliers in '' @ quote ''Age'' @ '' at lower:13.75 and upper:37.75.'')"
  by code_simp

lemma survey_rules:
  "apply_rules survey_capped =
     Inr (survey_final,
          ''Found 1 rule violation(s): Age < 18 and Employed. Correcting status to '' @
          quote ''Unemployed'' @ ''.'')"
  by code_simp

lemma survey_estimates:
  "calculate_estimates seq_sum seq_sum survey_final ''Design_Weight'' =
     Inr ([\<lparr>variable = ''Age'', unweighted_mean = Fin (415 / 16), weighted_mean = Fin (103 / 4)\<rparr>],
          ''Calculated weighted and unweighted means using '' @ quote ''Design_Weight'' @ ''.'')"
  by code_simp

text \<open>
  C4. The handler runs imputation, outlier capping, rule validation and estimation in
  this order, each on the table the stage before returned; the estimates are computed on
  the validated table, which is also the final table, and the audit trail is the four
  stage logs in stage order. A stage that raises ends the run.
\<close>

theorem run_analysis_sequence:
  "run_analysis pd_sum np_sum knn df_raw imputation_cols imputation_method outlier_cols weight_column = Inr r \<longleftrightarrow>
     (\<exists>df_imputed log1 df_outliers_handled log2 df_validated log3 estimates log4.
        impute_missing_values np_sum knn df_raw imputation_cols imputation_method = Inr (df_imputed, log1) \<and>
        handle_outliers df_imputed outlier_cols ''IQR'' = Inr (df_outliers_handled, log2) \<and>
        apply_rules df_outliers_handled = Inr (df_validated, log3) \<and>
        calculate_estimates pd_sum np_sum df_validated weight_column = Inr (estimates, log4) \<and>
        r = \<lparr>df_final = df_validated, df_estimates = estimates, logs = [log1, log2, log3, log4]\<rparr>)"
  unfolding run_analysis_def
  by (auto split: sum.splits prod.splits)

theorem run_analysis_sequence_witness:
  "run_analysis seq_sum seq_sum (simple_imputer ma_median) survey_raw [''Age''] ''Median'' [''Age'']
     ''Design_Weight'' =
     Inr \<lparr>df_final = survey_final,
          df_estimates = [\<lparr>variable = ''Age'', unweighted_mean = Fin (415 / 16),
                           weighted_mean = Fin (103 / 4)\<rparr>],
          logs = [''Imputed missing values in columns '' @ repr_list [''Age''] @ '' using Median.'',
                  ''Found 1 outlier(s) in '' @ quote ''Age'' @ '' using IQR.'' @ [CHR 0x0A] @
                  ''Capped outliers in '' @ quote ''Age'' @ '' at lower:13.75 and upper:37.75.'',
                  ''Found 1 rule violation(s): Age < 18 and Employed. Correcting status to '' @
                  quote ''Unemployed'' @ ''.'',
                  ''Calculated weighted and unweighted means using '' @ quote ''Design_Weight'' @ ''.'']\<rparr>"
proof -
  note 1 = survey_impute and 2 = survey_outliers and 3 = survey_rules and 4 = survey_estimates
  show ?thesis
    unfolding run_analysis_sequence using 1 2 3 4 by blast
qed

section \<open>The claim about all stages\<close>

text \<open>
  C9. Whenever imputation, outlier capping or rule validation returns a table, it has the
  row index of the input, hence as many rows, and the same columns by name, and it is well
  formed if the input is: only cell values differ.
\<close>

theorem stages_preserve_rows:
  "(impute_missing_values np_sum knn df columns method = Inr (df', msg) \<longrightarrow> same_rows df df') \<and>
   (handle_outliers df columns method = Inr (df', msg) \<longrightarrow> same_rows df df') \<and>
   (apply_rules df = Inr (df', msg) \<longrightarrow> same_rows df df')"
  by (intro conjI impI impute_same_rows handle_outliers_same_rows apply_rules_same_rows)

theorem stages_preserve_rows_witness:
  "wf_table survey_raw \<and>
   same_rows survey_raw survey_imputed \<and> wf_table survey_imputed \<and>
   same_rows survey_imputed survey_capped \<and> wf_table survey_capped \<and>
   same_rows survey_capped survey_final \<and> wf_table survey_final \<and>
   tindex survey_final = tindex survey_raw"
proof -
  note 1 = survey_impute and 2 = survey_outliers and 3 = survey_rules
  have wf: "wf_table survey_raw" by code_simp
  note s1 = stages_preserve_rows [THEN conjunct1, THEN mp, OF 1]
  note s2 = stages_preserve_rows [THEN conjunct2, THEN conjunct1, THEN mp, OF 2]
  note s3 = stages_preserve_rows [THEN conjunct2, THEN conjunct2, THEN mp, OF 3]
  from wf s1 have w1: "wf_table survey_imputed" by (simp add: same_rows_def)
  from w1 s2 have w2: "wf_table survey_capped" by (simp add: same_rows_def)
  from w2 s3 have w3: "wf_table survey_final" by (simp add: same_rows_def)
  from s1 s2 s3 have t: "tindex survey_final = tindex survey_raw" by (simp add: same_rows_def)
  from wf s1 w1 s2 w2 s3 w3 t show ?thesis by (intro conjI)
qed

end
